theory Spec2Isabelle
  imports Complex_Main "HOL-Library.Log_Nat"
begin

section \<open>Image compressor: a shallow embedding of \<^verbatim>\<open>src/main.py\<close>\<close>

text \<open>
  The embedding follows \<^verbatim>\<open>main.py\<close> function by function. What the program takes from
  outside is made explicit:
  \<^item> strings are \<open>string\<close>; \<^verbatim>\<open>str.lower\<close> and \<^verbatim>\<open>str.upper\<close> map the ASCII letters and
    leave every other character alone;
  \<^item> a \<^verbatim>\<open>pathlib.Path\<close> is a directory and a final component, with \<^verbatim>\<open>suffix\<close>,
    \<^verbatim>\<open>stem\<close> and \<^verbatim>\<open>with_suffix\<close> as pathlib defines them on the final component;
    paths compare as on POSIX (case-sensitive);
  \<^item> the file system is a map from paths to file contents;
  \<^item> Pillow is a codec: \<^verbatim>\<open>Image.open\<close> decodes the bytes of a file or fails,
    \<^verbatim>\<open>Image.save\<close> encodes an image or fails, before or after it has opened the
    destination; \<^verbatim>\<open>Image.resize\<close> fails on a side below one; the images themselves are
    the terms built by the Pillow calls the program makes;
  \<^item> Python floats are binary64 values, every operation rounding its exact result to the
    nearest value with a 53-bit significand, ties to even (the exponent range is not
    bounded: overflow and subnormal numbers are outside the model);
  \<^item> an exception is a value of the type \<open>error\<close>; the handler of \<^verbatim>\<open>compress_image\<close>
    is a function of the state reached when the exception was raised.
\<close>

subsection \<open>Strings\<close>

definition lower_char :: "char \<Rightarrow> char" where
  "lower_char c =
     (let n = (of_char c :: nat) in if 65 \<le> n \<and> n \<le> 90 then char_of (n + 32) else c)"

definition upper_char :: "char \<Rightarrow> char" where
  "upper_char c =
     (let n = (of_char c :: nat) in if 97 \<le> n \<and> n \<le> 122 then char_of (n - 32) else c)"

definition lower :: "string \<Rightarrow> string" where
  "lower s = map lower_char s"

definition upper :: "string \<Rightarrow> string" where
  "upper s = map upper_char s"

text \<open>\<^verbatim>\<open>s.rfind(c)\<close>: the index of the last occurrence of \<open>c\<close>, or \<open>-1\<close>.\<close>

definition rfind :: "string \<Rightarrow> char \<Rightarrow> int" where
  "rfind s c =
     (if c \<in> set s
      then int (length s) - 1 - int (length (takeWhile (\<lambda>x. x \<noteq> c) (rev s)))
      else - 1)"

subsection \<open>Errors\<close>

datatype error =
    ValueError
  | ZeroDivisionError
  | FileNotFoundError

subsection \<open>Paths (\<^verbatim>\<open>pathlib.Path\<close>)\<close>

record path =
  parent :: string
  name :: string

text \<open>
  \<^verbatim>\<open>
  i = name.rfind('.')
  if 0 < i < len(name) - 1: return name[i:]
  else: return ''
  \<close>
\<close>

definition suffix :: "path \<Rightarrow> string" where
  "suffix p =
     (let i = rfind (name p) CHR ''.'' in
      if 0 < i \<and> i < int (length (name p)) - 1 then drop (nat i) (name p) else [])"

definition stem :: "path \<Rightarrow> string" where
  "stem p =
     (let i = rfind (name p) CHR ''.'' in
      if 0 < i \<and> i < int (length (name p)) - 1 then take (nat i) (name p) else name p)"

text \<open>
  \<^verbatim>\<open>with_suffix\<close> raises \<^verbatim>\<open>ValueError\<close> on a suffix that holds a separator, that does not
  start with a dot or that is the dot alone, and on a path with an empty name.
\<close>

definition with_suffix :: "path \<Rightarrow> string \<Rightarrow> error + path" where
  "with_suffix p sfx =
     (if CHR ''/'' \<in> set sfx then Inl ValueError
      else if (sfx \<noteq> [] \<and> take 1 sfx \<noteq> ''.'') \<or> sfx = ''.'' then Inl ValueError
      else if name p = [] then Inl ValueError
      else let old_suffix = suffix p in
        if old_suffix = [] then Inr (p\<lparr>name := name p @ sfx\<rparr>)
        else Inr (p\<lparr>name := take (length (name p) - length old_suffix) (name p) @ sfx\<rparr>))"

text \<open>
  \<^verbatim>\<open>input_path.parent / f"{stem}{suffix}"\<close>: the file of that name in the directory of
  \<open>p\<close> (the name is taken to hold no separator).
\<close>

definition sibling :: "path \<Rightarrow> string \<Rightarrow> path" where
  "sibling p s = p\<lparr>name := s\<rparr>"

subsection \<open>Configuration\<close>

record CompressionConfig =
  quality :: int
  format :: string
  max_width :: "int option"
  max_height :: "int option"
  optimize :: bool
  progressive :: bool
  backup_original :: bool
  output_suffix :: string
  delete_original_on_format_change :: bool

definition default_config :: CompressionConfig where
  "default_config =
     \<lparr>quality = 85, format = ''JPEG'', max_width = None, max_height = None,
      optimize = True, progressive = True, backup_original = False,
      output_suffix = ''_compressed'', delete_original_on_format_change = True\<rparr>"

text \<open>Truth value of an \<^verbatim>\<open>Optional[int]\<close>: \<^verbatim>\<open>None\<close> and \<open>0\<close> are false.\<close>

definition truthy :: "int option \<Rightarrow> bool" where
  "truthy v = (case v of None \<Rightarrow> False | Some n \<Rightarrow> n \<noteq> 0)"

subsection \<open>Floats\<close>

text \<open>
  A float is a pair \<open>(m, e)\<close> of integers standing for \<open>m * 2 ^ e\<close>. \<open>fround a b\<close> is
  the binary64 value nearest to the fraction \<open>a / b\<close> (for \<open>0 < b\<close>): with
  \<open>ex = \<lfloor>log\<^sub>2 (a / b)\<rfloor>\<close>, the significand is \<open>a / b\<close> scaled by \<open>2 ^ (52 - ex)\<close> and
  rounded to the nearest integer, ties to even.
\<close>

type_synonym pyfloat = "int \<times> int"

definition round_half_even :: "int \<Rightarrow> int \<Rightarrow> int" where
  "round_half_even n d =
     (let q = n div d; r = n mod d in
      if 2 * r < d then q
      else if d < 2 * r then q + 1
      else if even q then q else q + 1)"

definition fround_pos :: "int \<Rightarrow> int \<Rightarrow> pyfloat" where
  "fround_pos a b =
     (let d = bitlen a - bitlen b;
          ex = (if b * 2 ^ nat d \<le> a * 2 ^ nat (- d) then d else d - 1);
          s = 52 - ex
      in (round_half_even (a * 2 ^ nat s) (b * 2 ^ nat (- s)), - s))"

definition fround :: "int \<Rightarrow> int \<Rightarrow> pyfloat" where
  "fround a b =
     (if a = 0 then (0, 0)
      else if a < 0 then (- fst (fround_pos (- a) b), snd (fround_pos (- a) b))
      else fround_pos a b)"

definition fval :: "pyfloat \<Rightarrow> rat" where
  "fval x = of_int (fst x) * 2 powi (snd x)"

text \<open>\<^verbatim>\<open>a / b\<close> on integers: the correctly rounded quotient.\<close>

definition truediv :: "int \<Rightarrow> int \<Rightarrow> error + pyfloat" where
  "truediv a b =
     (if b = 0 then Inl ZeroDivisionError
      else if b < 0 then Inr (fround (- a) (- b))
      else Inr (fround a b))"

text \<open>\<^verbatim>\<open>float(n)\<close>, and the float product and difference.\<close>

definition float_of_int :: "int \<Rightarrow> pyfloat" where
  "float_of_int n = fround n 1"

definition fdyadic :: "int \<Rightarrow> int \<Rightarrow> pyfloat" where
  "fdyadic m e = fround (m * 2 ^ nat e) (2 ^ nat (- e))"

definition fmul :: "pyfloat \<Rightarrow> pyfloat \<Rightarrow> pyfloat" where
  "fmul x y = fdyadic (fst x * fst y) (snd x + snd y)"

definition fsub :: "pyfloat \<Rightarrow> pyfloat \<Rightarrow> pyfloat" where
  "fsub x y =
     (let e = min (snd x) (snd y) in
      fdyadic (fst x * 2 ^ nat (snd x - e) - fst y * 2 ^ nat (snd y - e)) e)"

text \<open>\<^verbatim>\<open>int(x)\<close> truncates towards zero.\<close>

definition py_int :: "pyfloat \<Rightarrow> int" where
  "py_int x =
     (let m = fst x; e = snd x in
      if 0 \<le> e then m * 2 ^ nat e
      else if 0 \<le> m then m div 2 ^ nat (- e)
      else - ((- m) div 2 ^ nat (- e)))"

subsection \<open>Images and the codec (Pillow)\<close>

text \<open>
  An image is the term of the Pillow calls that built it: decoded from a file (mode,
  width, height, pixel data), \<^verbatim>\<open>Image.new(mode, size, color)\<close>,
  \<^verbatim>\<open>dst.paste(src, mask=...)\<close>, the last band of \<^verbatim>\<open>image.split()\<close>, and
  \<^verbatim>\<open>image.resize(size, LANCZOS)\<close>.
\<close>

datatype image =
    Raster string int int "nat list"
  | New string "int \<times> int" "nat \<times> nat \<times> nat"
  | Paste image image "image option"
  | LastBand image
  | Resize image "int \<times> int"

fun image_mode :: "image \<Rightarrow> string" where
  "image_mode (Raster m w h px) = m"
| "image_mode (New m sz c) = m"
| "image_mode (Paste dst src msk) = image_mode dst"
| "image_mode (LastBand im) = ''L''"
| "image_mode (Resize im sz) = image_mode im"

fun image_size :: "image \<Rightarrow> int \<times> int" where
  "image_size (Raster m w h px) = (w, h)"
| "image_size (New m sz c) = sz"
| "image_size (Paste dst src msk) = image_size dst"
| "image_size (LastBand im) = image_size im"
| "image_size (Resize im sz) = sz"

text \<open>
  Pillow's modes that carry an alpha band, and those that carry a palette
  (from Pillow's table of modes).
\<close>

definition has_alpha :: "string \<Rightarrow> bool" where
  "has_alpha m = (m \<in> set [''RGBA'', ''LA'', ''PA'', ''RGBa'', ''La''])"

definition has_palette :: "string \<Rightarrow> bool" where
  "has_palette m = (m \<in> set [''P'', ''PA''])"

type_synonym bytes = "nat list"

datatype pyval = PyBool bool | PyInt int

type_synonym kwargs = "string \<rightharpoonup> pyval"

text \<open>
  What \<^verbatim>\<open>im.save(path, format=fmt, **kw)\<close> does:
  \<^item> \<open>Written data\<close>: the destination holds \<open>data\<close>;
  \<^item> \<open>Refused\<close>: Pillow raises before it opens the destination (it has no plugin for
    the format): the file system is as it was;
  \<^item> \<open>Broken partial\<close>: Pillow raises after it has opened the destination for writing
    (the plugin cannot hold the mode of the image, or the encoder fails): a destination
    that was there before is left holding \<open>partial\<close>, what was written until then; one
    that this call created is removed again.
\<close>

datatype save_result = Written bytes | Refused | Broken bytes

text \<open>
  \<open>decode\<close> is \<^verbatim>\<open>Image.open\<close> on the contents of a file (\<open>None\<close>: Pillow raises);
  \<open>encode im fmt kw\<close> is the outcome of \<^verbatim>\<open>im.save(path, format=fmt, **kw)\<close>.
\<close>

record codec =
  decode :: "bytes \<Rightarrow> image option"
  encode :: "image \<Rightarrow> string \<Rightarrow> kwargs \<Rightarrow> save_result"

subsection \<open>\<^verbatim>\<open>ImageCompressor._resize_image\<close>\<close>

text \<open>
  \<^verbatim>\<open>
  if self.config.max_width and width > self.config.max_width:
      ratio = self.config.max_width / width
      height = int(height * ratio)
      width = self.config.max_width
  \<close>
\<close>

definition width_pass :: "int option \<Rightarrow> int \<times> int \<Rightarrow> error + int \<times> int" where
  "width_pass mw sz =
     (case mw of
        None \<Rightarrow> Inr sz
      | Some W \<Rightarrow>
          if W \<noteq> 0 \<and> fst sz > W then
            (case truediv W (fst sz) of
               Inl e \<Rightarrow> Inl e
             | Inr ratio \<Rightarrow> Inr (W, py_int (fmul (float_of_int (snd sz)) ratio)))
          else Inr sz)"

text \<open>
  \<^verbatim>\<open>
  if self.config.max_height and height > self.config.max_height:
      ratio = self.config.max_height / height
      width = int(width * ratio)
      height = self.config.max_height
  \<close>
\<close>

definition height_pass :: "int option \<Rightarrow> int \<times> int \<Rightarrow> error + int \<times> int" where
  "height_pass mh sz =
     (case mh of
        None \<Rightarrow> Inr sz
      | Some H \<Rightarrow>
          if H \<noteq> 0 \<and> snd sz > H then
            (case truediv H (snd sz) of
               Inl e \<Rightarrow> Inl e
             | Inr ratio \<Rightarrow> Inr (py_int (fmul (float_of_int (fst sz)) ratio), H))
          else Inr sz)"

text \<open>
  \<^verbatim>\<open>image.resize((width, height), Image.Resampling.LANCZOS)\<close>: Pillow raises
  \<^verbatim>\<open>ValueError\<close> (height and width must be > 0) when a side is below one.
\<close>

definition pil_resize :: "image \<Rightarrow> int \<times> int \<Rightarrow> error + image" where
  "pil_resize im sz = (if fst sz < 1 \<or> snd sz < 1 then Inl ValueError else Inr (Resize im sz))"

definition resize_image :: "CompressionConfig \<Rightarrow> image \<Rightarrow> error + image" where
  "resize_image cfg im =
     (if \<not> truthy (max_width cfg) \<and> \<not> truthy (max_height cfg) then Inr im
      else
        case width_pass (max_width cfg) (image_size im) of
          Inl e \<Rightarrow> Inl e
        | Inr sz1 \<Rightarrow>
            (case height_pass (max_height cfg) sz1 of
               Inl e \<Rightarrow> Inl e
             | Inr sz2 \<Rightarrow>
                 if fst sz2 \<noteq> fst (image_size im) \<or> snd sz2 \<noteq> snd (image_size im)
                 then pil_resize im sz2
                 else Inr im))"

subsection \<open>\<^verbatim>\<open>ImageCompressor._get_save_kwargs\<close>\<close>

definition get_save_kwargs :: "CompressionConfig \<Rightarrow> kwargs" where
  "get_save_kwargs cfg =
     (let kwargs = [''optimize'' \<mapsto> PyBool (optimize cfg)] in
      if upper (format cfg) = ''JPEG'' then
        kwargs(''quality'' \<mapsto> PyInt (quality cfg),
               ''progressive'' \<mapsto> PyBool (progressive cfg))
      else if upper (format cfg) = ''PNG'' then
        kwargs(''optimize'' \<mapsto> PyBool True)
      else if upper (format cfg) = ''WEBP'' then
        kwargs(''quality'' \<mapsto> PyInt (quality cfg), ''method'' \<mapsto> PyInt 6)
      else kwargs)"

subsection \<open>Statistics and the file system\<close>

text \<open>
  The dictionary \<^verbatim>\<open>self.stats\<close>. Its last two keys are absent until
  \<^verbatim>\<open>process_enem_data\<close> adds them.
\<close>

record stats =
  processed :: nat
  errors :: nat
  total_original_size :: nat
  total_compressed_size :: nat
  total_directories :: "nat option"
  processed_directories :: "nat option"

definition init_stats :: stats where
  "init_stats =
     \<lparr>processed = 0, errors = 0, total_original_size = 0, total_compressed_size = 0,
      total_directories = None, processed_directories = None\<rparr>"

type_synonym filesystem = "path \<rightharpoonup> bytes"

text \<open>\<^verbatim>\<open>src.rename(dst)\<close> (POSIX: an existing destination is replaced).\<close>

definition rename :: "filesystem \<Rightarrow> path \<Rightarrow> path \<Rightarrow> error + filesystem" where
  "rename fs src dst =
     (case fs src of
        None \<Rightarrow> Inl FileNotFoundError
      | Some content \<Rightarrow> Inr ((fs(src := None))(dst \<mapsto> content)))"

subsection \<open>\<^verbatim>\<open>ImageCompressor.compress_image\<close>\<close>

text \<open>
  \<^verbatim>\<open>
  original_format = input_path.suffix.lower()
  target_format = f".{self.config.format.lower()}"
  format_changed = original_format != target_format
  \<close>
\<close>

definition target_format :: "CompressionConfig \<Rightarrow> string" where
  "target_format cfg = ''.'' @ lower (format cfg)"

definition format_changed :: "CompressionConfig \<Rightarrow> path \<Rightarrow> bool" where
  "format_changed cfg input_path = (lower (suffix input_path) \<noteq> target_format cfg)"

text \<open>
  \<^verbatim>\<open>
  if self.config.format.upper() == "JPEG" and image.mode in ("RGBA", "P"):
      rgb_image = Image.new("RGB", image.size, (255, 255, 255))
      rgb_image.paste(image, mask=image.split()[-1] if image.mode == "RGBA" else None)
      image = rgb_image
  \<close>
\<close>

definition flatten_for_jpeg :: "CompressionConfig \<Rightarrow> image \<Rightarrow> image" where
  "flatten_for_jpeg cfg im =
     (if upper (format cfg) = ''JPEG'' \<and> image_mode im \<in> set [''RGBA'', ''P''] then
        Paste (New ''RGB'' (image_size im) (255, 255, 255)) im
          (if image_mode im = ''RGBA'' then Some (LastBand im) else None)
      else im)"

text \<open>
  \<^verbatim>\<open>
  if output_path is None:
      if format_changed:
          output_path = input_path.with_suffix(target_format)
      elif self.config.backup_original:
          stem = input_path.stem + self.config.output_suffix
          suffix = f".{self.config.format.lower()}"
          output_path = input_path.parent / f"{stem}{suffix}"
      else:
          output_path = input_path.with_suffix(f".{self.config.format.lower()}")
  \<close>
\<close>

definition choose_output_path ::
  "CompressionConfig \<Rightarrow> path \<Rightarrow> path option \<Rightarrow> error + path" where
  "choose_output_path cfg input_path output_path =
     (case output_path of
        Some p \<Rightarrow> Inr p
      | None \<Rightarrow>
          if format_changed cfg input_path then with_suffix input_path (target_format cfg)
          else if backup_original cfg then
            Inr (sibling input_path
                   ((stem input_path @ output_suffix cfg) @ (''.'' @ lower (format cfg))))
          else with_suffix input_path (''.'' @ lower (format cfg)))"

text \<open>
  \<^verbatim>\<open>
  if self.config.backup_original and not self.config.output_suffix and not format_changed:
      backup_path = input_path.with_suffix(f"{input_path.suffix}.bak")
      input_path.rename(backup_path)
  \<close>
\<close>

definition backup_rename ::
  "CompressionConfig \<Rightarrow> path \<Rightarrow> filesystem \<Rightarrow> error + filesystem" where
  "backup_rename cfg input_path fs =
     (if backup_original cfg \<and> output_suffix cfg = [] \<and> \<not> format_changed cfg input_path then
        (case with_suffix input_path (suffix input_path @ ''.bak'') of
           Inl e \<Rightarrow> Inl e
         | Inr backup_path \<Rightarrow> rename fs input_path backup_path)
      else Inr fs)"

text \<open>
  \<^verbatim>\<open>
  if (format_changed and self.config.delete_original_on_format_change and
      input_path != output_path and input_path.exists()):
      input_path.unlink()
  \<close>
\<close>

definition delete_original ::
  "CompressionConfig \<Rightarrow> path \<Rightarrow> path \<Rightarrow> filesystem \<Rightarrow> filesystem" where
  "delete_original cfg input_path output_path fs =
     (if format_changed cfg input_path \<and> delete_original_on_format_change cfg \<and>
         input_path \<noteq> output_path \<and> fs input_path \<noteq> None
      then fs(input_path := None)
      else fs)"

text \<open>
  The handler \<^verbatim>\<open>except Exception\<close>: one more error, the result \<^verbatim>\<open>False\<close>; what the body
  did to the statistics and to the files before it raised stays done.
\<close>

definition except_handler :: "stats \<Rightarrow> filesystem \<Rightarrow> bool \<times> stats \<times> filesystem" where
  "except_handler st fs = (False, st\<lparr>errors := errors st + 1\<rparr>, fs)"

definition compress_image ::
  "CompressionConfig \<Rightarrow> codec \<Rightarrow> path \<Rightarrow> path option \<Rightarrow> stats \<times> filesystem \<Rightarrow>
     bool \<times> stats \<times> filesystem" where
  "compress_image cfg cdc input_path output_path w =
     (let (st, fs) = w in
      case fs input_path of
        None \<Rightarrow> (False, st, fs)
      | Some content \<Rightarrow>
          let original_size = length content;
              st = st\<lparr>total_original_size := total_original_size st + original_size\<rparr>
          in
          case decode cdc content of
            None \<Rightarrow> except_handler st fs
          | Some im \<Rightarrow>
              (case resize_image cfg (flatten_for_jpeg cfg im) of
                 Inl e \<Rightarrow> except_handler st fs
               | Inr im \<Rightarrow>
                   (case choose_output_path cfg input_path output_path of
                      Inl e \<Rightarrow> except_handler st fs
                    | Inr output_path \<Rightarrow>
                        (case backup_rename cfg input_path fs of
                           Inl e \<Rightarrow> except_handler st fs
                         | Inr fs \<Rightarrow>
                             (case encode cdc im (upper (format cfg)) (get_save_kwargs cfg) of
                                Refused \<Rightarrow> except_handler st fs
                              | Broken partial \<Rightarrow>
                                  except_handler st
                                    (if fs output_path = None then fs
                                     else fs(output_path \<mapsto> partial))
                              | Written data \<Rightarrow>
                                  let fs = delete_original cfg input_path output_path
                                             (fs(output_path \<mapsto> data))
                                  in
                                  (case fs output_path of
                                     None \<Rightarrow> except_handler st fs
                                   | Some written \<Rightarrow>
                                       let compressed_size = length written;
                                           st = st\<lparr>total_compressed_size :=
                                                     total_compressed_size st + compressed_size,
                                                   processed := processed st + 1\<rparr>
                                       in
                                       (case truediv (int compressed_size) (int original_size) of
                                          Inl e \<Rightarrow> except_handler st fs
                                        | Inr ratio \<Rightarrow> (True, st, fs))))))))"

subsection \<open>The directory walk\<close>

text \<open>
  \<^verbatim>\<open>
  for image_file in image_files:
      if self.compress_image(image_file):
          compressed_files.append(image_file)
  \<close>
\<close>

fun compress_files ::
  "CompressionConfig \<Rightarrow> codec \<Rightarrow> path list \<Rightarrow> stats \<times> filesystem \<Rightarrow>
     path list \<times> stats \<times> filesystem" where
  "compress_files cfg cdc [] w = ([], w)"
| "compress_files cfg cdc (image_file # image_files) w =
     (let (ok, w') = compress_image cfg cdc image_file None w;
          (compressed_files, w'') = compress_files cfg cdc image_files w'
      in (if ok then image_file # compressed_files else compressed_files, w''))"

text \<open>
  \<^verbatim>\<open>scan_and_compress_directory\<close>: the directory is given by what the program reads of
  it: \<open>None\<close> when it does not exist, else the files its globs return, in their order.
\<close>

definition scan_and_compress_directory ::
  "CompressionConfig \<Rightarrow> codec \<Rightarrow> path list option \<Rightarrow> stats \<times> filesystem \<Rightarrow>
     path list \<times> stats \<times> filesystem" where
  "scan_and_compress_directory cfg cdc directory w =
     (case directory of
        None \<Rightarrow> ([], w)
      | Some image_files \<Rightarrow> compress_files cfg cdc image_files w)"

text \<open>
  \<^verbatim>\<open>process_enem_data\<close>: the base directory is \<open>None\<close> when it does not exist, else one
  entry for each year of the range: \<open>None\<close> for a year without directory, else the
  directories \<^verbatim>\<open>*-images\<close> of that year. The two counters are
  \<^verbatim>\<open>(total_directories, processed_directories)\<close>.
\<close>

fun process_image_dirs ::
  "CompressionConfig \<Rightarrow> codec \<Rightarrow> path list option list \<Rightarrow> nat \<times> stats \<times> filesystem \<Rightarrow>
     nat \<times> stats \<times> filesystem" where
  "process_image_dirs cfg cdc [] a = a"
| "process_image_dirs cfg cdc (image_dir # image_dirs) a =
     (let (processed_dirs, w) = a;
          (compressed_files, w') = scan_and_compress_directory cfg cdc image_dir w
      in process_image_dirs cfg cdc image_dirs (processed_dirs + 1, w'))"

fun process_years ::
  "CompressionConfig \<Rightarrow> codec \<Rightarrow> path list option list option list \<Rightarrow>
     nat \<times> nat \<times> stats \<times> filesystem \<Rightarrow> nat \<times> nat \<times> stats \<times> filesystem" where
  "process_years cfg cdc [] a = a"
| "process_years cfg cdc (year_dir # years) a =
     (case year_dir of
        None \<Rightarrow> process_years cfg cdc years a
      | Some image_dirs \<Rightarrow>
          let (total_dirs, rest) = a in
          process_years cfg cdc years
            (total_dirs + length image_dirs, process_image_dirs cfg cdc image_dirs rest))"

definition process_enem_data ::
  "CompressionConfig \<Rightarrow> codec \<Rightarrow> path list option list option list option \<Rightarrow>
     stats \<times> filesystem \<Rightarrow> stats \<times> filesystem" where
  "process_enem_data cfg cdc base w =
     (case base of
        None \<Rightarrow> w
      | Some years \<Rightarrow>
          let (total_dirs, processed_dirs, st, fs) = process_years cfg cdc years (0, 0, w) in
          (st\<lparr>total_directories := Some total_dirs,
              processed_directories := Some processed_dirs\<rparr>, fs))"

subsection \<open>\<^verbatim>\<open>ImageCompressor.print_statistics\<close> and \<^verbatim>\<open>main\<close>\<close>

text \<open>
  The printed report, one value for each \<^verbatim>\<open>print\<close>; a figure is carried as the number
  the program computes, before it is formatted.
\<close>

datatype report_line =
    Rule
  | Title
  | ImagesProcessed nat
  | ErrorCount nat
  | DirectoriesProcessed nat
  | TotalDirectories nat
  | OriginalSizeMB pyfloat
  | CompressedSizeMB pyfloat
  | TotalReduction pyfloat
  | SpaceSavedMB pyfloat

definition or_zero :: "nat option \<Rightarrow> nat" where
  "or_zero v = (case v of None \<Rightarrow> 0 | Some n \<Rightarrow> n)"

text \<open>The lines printed whatever the totals are, before the closing rule.\<close>

definition report_head :: "stats \<Rightarrow> report_line list" where
  "report_head st =
     [Rule, Title, Rule,
      ImagesProcessed (processed st),
      ErrorCount (errors st),
      DirectoriesProcessed (or_zero (processed_directories st)),
      TotalDirectories (or_zero (total_directories st))]"

definition print_statistics :: "stats \<Rightarrow> error + report_line list" where
  "print_statistics st =
     (if total_original_size st > 0 then
        (case truediv (int (total_original_size st)) (1024 * 1024) of
           Inl e \<Rightarrow> Inl e
         | Inr original_mb \<Rightarrow>
             (case truediv (int (total_compressed_size st)) (1024 * 1024) of
                Inl e \<Rightarrow> Inl e
              | Inr compressed_mb \<Rightarrow>
                  (case truediv (int (total_compressed_size st)) (int (total_original_size st)) of
                     Inl e \<Rightarrow> Inl e
                   | Inr q \<Rightarrow>
                       let reduction = fmul (fsub (float_of_int 1) q) (float_of_int 100) in
                       Inr (report_head st @
                            [OriginalSizeMB original_mb,
                             CompressedSizeMB compressed_mb,
                             TotalReduction reduction,
                             SpaceSavedMB (fsub original_mb compressed_mb),
                             Rule]))))
      else Inr (report_head st @ [Rule]))"

text \<open>
  \<^verbatim>\<open>main\<close>: the configuration is the one \<^verbatim>\<open>load_config\<close> returns; the compressor starts
  from fresh statistics, walks the tree and prints the report.
\<close>

definition main ::
  "CompressionConfig \<Rightarrow> codec \<Rightarrow> path list option list option list option \<Rightarrow> filesystem \<Rightarrow>
     (error + report_line list) \<times> stats \<times> filesystem" where
  "main cfg cdc base fs =
     (let (st, fs') = process_enem_data cfg cdc base (init_stats, fs)
      in (print_statistics st, st, fs'))"

subsection \<open>Example data\<close>

text \<open>
  A codec for the examples: it decodes every non-empty file to a 4 by 3 RGB image and
  writes three bytes for the formats \<^verbatim>\<open>JPEG\<close>, \<^verbatim>\<open>PNG\<close> and \<^verbatim>\<open>WEBP\<close>; any other
  format is refused, as Pillow refuses a format it has no plugin for. The codec
  \<open>shaped_codec im\<close> decodes every non-empty file to the image \<open>im\<close> instead, and its
  JPEG plugin breaks off on an image whose mode carries an alpha band, as Pillow's does.
\<close>

definition sample_codec :: codec where
  "sample_codec =
     \<lparr>decode = (\<lambda>bs. if bs = [] then None else Some (Raster ''RGB'' 4 3 bs)),
      encode = (\<lambda>im fmt kw.
                  if fmt \<in> set [''JPEG'', ''PNG'', ''WEBP''] then Written [1, 2, 3] else Refused)\<rparr>"

definition shaped_codec :: "image \<Rightarrow> codec" where
  "shaped_codec shape =
     \<lparr>decode = (\<lambda>bs. if bs = [] then None else Some shape),
      encode = (\<lambda>im fmt kw.
                  if fmt \<notin> set [''JPEG'', ''PNG'', ''WEBP''] then Refused
                  else if fmt = ''JPEG'' \<and> has_alpha (image_mode im) then Broken []
                  else Written [1, 2, 3])\<rparr>"

definition photo_png :: path where
  "photo_png = \<lparr>parent = ''enem-2009/a-images'', name = ''photo.png''\<rparr>"

definition photo_jpg :: path where
  "photo_jpg = \<lparr>parent = ''enem-2009/a-images'', name = ''photo.jpg''\<rparr>"

definition photo_jpeg :: path where
  "photo_jpeg = \<lparr>parent = ''enem-2009/a-images'', name = ''photo.jpeg''\<rparr>"


definition backup_config :: CompressionConfig where
  "backup_config = default_config\<lparr>format := ''PNG'', backup_original := True, output_suffix := []\<rparr>"

definition xyz_config :: CompressionConfig where
  "xyz_config = default_config\<lparr>format := ''XYZ''\<rparr>"

definition two_files :: filesystem where
  "two_files = [photo_png \<mapsto> [9, 9], photo_jpg \<mapsto> [8]]"

section \<open>Properties\<close>

subsection \<open>Rounding error of the float operations\<close>

lemma round_half_even_err:
  assumes "0 < d"
  shows "2 * \<bar>round_half_even n d * d - n\<bar> \<le> d"
proof -
  define q where "q = n div d"
  define r where "r = n mod d"
  have n: "n = q * d + r" by (simp add: q_def r_def)
  have r: "0 \<le> r" "r < d" using assms by (simp_all add: r_def)
  show ?thesis
    unfolding round_half_even_def Let_def q_def[symmetric] r_def[symmetric]
    using r by (auto simp add: n algebra_simps)
qed

lemma pow2_quot_powi: "(2::rat) ^ nat k / 2 ^ nat (- k) = 2 powi k"
  by (cases "0 \<le> k") (simp_all add: power_int_def field_simps)

lemma pow2_nat_powi: "0 \<le> k \<Longrightarrow> (2::rat) ^ nat k = 2 powi k"
  by (simp add: power_int_def)

lemma fround_pos_exponent:
  assumes "0 < a" "0 < b"
  defines "d \<equiv> bitlen a - bitlen b"
  defines "ex \<equiv> (if b * 2 ^ nat d \<le> a * 2 ^ nat (- d) then d else d - 1)"
  shows "2 powi ex \<le> (of_int a / of_int b :: rat)"
proof (cases "b * 2 ^ nat d \<le> a * 2 ^ nat (- d)")
  case True
  then have "(of_int (b * 2 ^ nat d) :: rat) \<le> of_int (a * 2 ^ nat (- d))"
    by (simp only: of_int_le_iff)
  then have "(of_int b :: rat) * 2 ^ nat d \<le> of_int a * 2 ^ nat (- d)" by simp
  then have "(2::rat) ^ nat d / 2 ^ nat (- d) \<le> of_int a / of_int b"
    using assms(2) by (simp add: field_simps)
  then show ?thesis using True by (simp add: ex_def pow2_quot_powi)
next
  case False
  have la: "1 \<le> bitlen a" and lb: "1 \<le> bitlen b"
    using assms(1,2) bitlen_eq_zero_iff[of a] bitlen_eq_zero_iff[of b] bitlen_nonneg[of a] bitlen_nonneg[of b]
    by linarith+
  have "(2::int) ^ nat (bitlen a - 1) \<le> a" using bitlen_bounds[OF assms(1)] by simp
  then have "(of_int ((2::int) ^ nat (bitlen a - 1)) :: rat) \<le> of_int a" by (simp only: of_int_le_iff)
  then have A: "(2::rat) powi (bitlen a - 1) \<le> of_int a" using la by (simp add: pow2_nat_powi[symmetric])
  have "b < 2 ^ nat (bitlen b)" using bitlen_bounds[OF assms(2)] by simp
  then have "(of_int b :: rat) < of_int (2 ^ nat (bitlen b))" by (simp only: of_int_less_iff)
  then have B: "(of_int b :: rat) \<le> 2 powi (bitlen b)" using lb by (simp add: pow2_nat_powi[symmetric])
  have "(2::rat) powi (d - 1) = 2 powi (bitlen a - 1) / 2 powi (bitlen b)"
    by (simp add: d_def power_int_diff)
  also have "\<dots> \<le> of_int a / of_int b"
    using A B assms(1,2) by (intro frac_le) simp_all
  finally show ?thesis using False by (simp add: ex_def)
qed

lemma fround_pos_err:
  assumes "0 < a" "0 < b"
  shows "\<bar>fval (fround_pos a b) - of_int a / of_int b\<bar> \<le> (of_int a / of_int b) / 2 ^ 53"
proof -
  define d where "d = bitlen a - bitlen b"
  define ex where "ex = (if b * 2 ^ nat d \<le> a * 2 ^ nat (- d) then d else d - 1)"
  define s where "s = 52 - ex"
  define N where "N = a * 2 ^ nat s"
  define D where "D = b * 2 ^ nat (- s)"
  define m where "m = round_half_even N D"
  define x :: rat where "x = of_int a / of_int b"
  have fr: "fround_pos a b = (m, - s)"
    by (simp add: fround_pos_def Let_def d_def ex_def s_def N_def D_def m_def)
  have Dpos: "0 < D" using assms by (simp add: D_def)
  have xpos: "0 < x" using assms by (simp add: x_def)
  have ex: "2 powi ex \<le> x" unfolding x_def ex_def d_def by (rule fround_pos_exponent[OF assms])
  have ND: "(of_int N :: rat) / of_int D = x * 2 powi s"
  proof -
    have "(of_int N :: rat) / of_int D = x * (2 ^ nat s / 2 ^ nat (- s))"
      by (simp add: N_def D_def x_def)
    then show ?thesis by (simp only: pow2_quot_powi)
  qed
  have "2 * \<bar>m * D - N\<bar> \<le> D" unfolding m_def by (rule round_half_even_err[OF Dpos])
  then have "(of_int (2 * \<bar>m * D - N\<bar>) :: rat) \<le> of_int D" by (simp only: of_int_le_iff)
  then have "2 * \<bar>(of_int m :: rat) * of_int D - of_int N\<bar> \<le> of_int D" by simp
  then have "2 * \<bar>(of_int m :: rat) - of_int N / of_int D\<bar> * of_int D \<le> of_int D"
    using Dpos by (simp add: abs_mult[symmetric] field_simps abs_if split: if_splits) 
  then have e1: "\<bar>(of_int m :: rat) - x * 2 powi s\<bar> \<le> 1 / 2"
    using Dpos by (simp add: ND)
  have p: "(0::rat) < 2 powi (- s)" by simp
  have "fval (fround_pos a b) - x = (of_int m - x * 2 powi s) * 2 powi (- s)"
    by (simp add: fr fval_def algebra_simps power_int_minus)
  then have "\<bar>fval (fround_pos a b) - x\<bar> = \<bar>of_int m - x * 2 powi s\<bar> * 2 powi (- s)"
    using p by (simp add: abs_mult)
  also have "\<dots> \<le> (1/2) * 2 powi (- s)" using e1 p by (intro mult_right_mono) simp_all
  also have "\<dots> = 2 powi ex / 2 ^ 53"
    by (simp add: s_def power_int_diff power_int_minus field_simps)
  also have "\<dots> \<le> x / 2 ^ 53" using ex by (simp add: divide_right_mono)
  finally show ?thesis by (simp add: x_def)
qed

lemma fround_bounds:
  assumes "0 < a" "0 < b"
  shows "(of_int a / of_int b) * (1 - 1 / 2 ^ 53) \<le> fval (fround a b)"
    and "fval (fround a b) \<le> (of_int a / of_int b) * (1 + 1 / 2 ^ 53)"
    and "0 < fst (fround a b)"
proof -
  have f: "fround a b = fround_pos a b" using assms by (simp add: fround_def)
  have e: "\<bar>fval (fround a b) - of_int a / of_int b\<bar> \<le> (of_int a / of_int b) / 2 ^ 53"
    unfolding f by (rule fround_pos_err[OF assms])
  show lo: "(of_int a / of_int b) * (1 - 1 / 2 ^ 53) \<le> fval (fround a b)"
    using e by (simp add: algebra_simps abs_le_iff)
  show "fval (fround a b) \<le> (of_int a / of_int b) * (1 + 1 / 2 ^ 53)"
    using e by (simp add: algebra_simps abs_le_iff)
  have "(0::rat) < (of_int a / of_int b) * (1 - 1 / 2 ^ 53)" using assms by simp
  with lo have "0 < fval (fround a b)" by linarith
  then have "0 < (of_int (fst (fround a b)) :: rat) * 2 powi (snd (fround a b))"
    by (simp add: fval_def)
  moreover have "(0::rat) < 2 powi (snd (fround a b))" by simp
  ultimately have "(0::rat) < of_int (fst (fround a b))"
    by (rule zero_less_mult_pos2)
  then show "0 < fst (fround a b)" by simp
qed

lemma fdyadic_exact: "(of_int (m * 2 ^ nat e) :: rat) / of_int (2 ^ nat (- e)) = of_int m * 2 powi e"
proof -
  have "(of_int (m * 2 ^ nat e) :: rat) / of_int (2 ^ nat (- e)) = of_int m * (2 ^ nat e / 2 ^ nat (- e))"
    by simp
  then show ?thesis by (simp only: pow2_quot_powi)
qed

lemma fmul_bounds:
  assumes "0 < fst x" "0 < fst y"
  shows "fval x * fval y * (1 - 1 / 2 ^ 53) \<le> fval (fmul x y)"
    and "fval (fmul x y) \<le> fval x * fval y * (1 + 1 / 2 ^ 53)"
    and "0 < fst (fmul x y)"
proof -
  define m where "m = fst x * fst y"
  define e where "e = snd x + snd y"
  have m: "0 < m" using assms by (simp add: m_def)
  have a: "0 < m * 2 ^ nat e" using m by simp
  have b: "(0::int) < 2 ^ nat (- e)" by simp
  have v: "(of_int (m * 2 ^ nat e) :: rat) / of_int (2 ^ nat (- e)) = fval x * fval y"
    unfolding fdyadic_exact by (simp add: m_def e_def fval_def power_int_add)
  have f: "fmul x y = fround (m * 2 ^ nat e) (2 ^ nat (- e))"
    by (simp add: fmul_def fdyadic_def m_def e_def)
  show "fval x * fval y * (1 - 1 / 2 ^ 53) \<le> fval (fmul x y)"
    using fround_bounds(1)[OF a b] unfolding v f .
  show "fval (fmul x y) \<le> fval x * fval y * (1 + 1 / 2 ^ 53)"
    using fround_bounds(2)[OF a b] unfolding v f .
  show "0 < fst (fmul x y)"
    using fround_bounds(3)[OF a b] unfolding f .
qed

lemma py_int_floor:
  assumes "0 \<le> fst x"
  shows "py_int x = \<lfloor>fval x\<rfloor>"
proof (cases "0 \<le> snd x")
  case True
  have "fval x = of_int (fst x * 2 ^ nat (snd x))"
    using True by (simp add: fval_def power_int_def)
  then have "\<lfloor>fval x\<rfloor> = fst x * 2 ^ nat (snd x)" by (simp only: floor_of_int)
  then show ?thesis using True by (simp add: py_int_def Let_def)
next
  case False
  have "fval x = of_int (fst x) / of_int (2 ^ nat (- snd x))"
    using False by (simp add: fval_def power_int_def field_simps)
  then have "\<lfloor>fval x\<rfloor> = fst x div 2 ^ nat (- snd x)"
    by (simp only: floor_divide_of_int_eq)
  then show ?thesis using False assms by (simp add: py_int_def Let_def)
qed

lemma cube_bound:
  assumes "0 < x" "x \<le> 2 ^ 51"
  shows "x * ((1 + 1 / 2 ^ 53) * (1 + 1 / 2 ^ 53) * (1 + 1 / 2 ^ 53)) \<le> (x :: rat) + 1"
    and "x - 1 \<le> x * ((1 - 1 / 2 ^ 53) * (1 - 1 / 2 ^ 53) * (1 - 1 / 2 ^ 53))"
proof -
  have c: "((1 + 1 / 2 ^ 53) * (1 + 1 / 2 ^ 53) * (1 + 1 / 2 ^ 53) :: rat) \<le> 1 + 1 / 2 ^ 51"
    by simp
  have "x * ((1 + 1 / 2 ^ 53) * (1 + 1 / 2 ^ 53) * (1 + 1 / 2 ^ 53)) \<le> x * (1 + 1 / 2 ^ 51)"
    using assms(1) c by (intro mult_left_mono) simp_all
  also have "\<dots> = x + x / 2 ^ 51" by (simp add: algebra_simps)
  also have "\<dots> \<le> x + 1" using assms(2) by simp
  finally show "x * ((1 + 1 / 2 ^ 53) * (1 + 1 / 2 ^ 53) * (1 + 1 / 2 ^ 53)) \<le> x + 1" .
  have d: "(1 - 1 / 2 ^ 51 :: rat) \<le> (1 - 1 / 2 ^ 53) * (1 - 1 / 2 ^ 53) * (1 - 1 / 2 ^ 53)"
    by simp
  have "x - 1 \<le> x - x / 2 ^ 51" using assms(2) by simp
  also have "\<dots> = x * (1 - 1 / 2 ^ 51)" by (simp add: algebra_simps)
  also have "\<dots> \<le> x * ((1 - 1 / 2 ^ 53) * (1 - 1 / 2 ^ 53) * (1 - 1 / 2 ^ 53))"
    using assms(1) d by (intro mult_left_mono) simp_all
  finally show "x - 1 \<le> x * ((1 - 1 / 2 ^ 53) * (1 - 1 / 2 ^ 53) * (1 - 1 / 2 ^ 53))" .
qed

lemma scaled_tolerance:
  assumes "0 < W" "W < w" "0 \<le> h" "h \<le> 2 ^ 51"
  shows "\<bar>py_int (fmul (float_of_int h) (fround W w)) - (h * W) div w\<bar> \<le> 1"
proof (cases "h = 0")
  case True
  then show ?thesis
    by (simp add: float_of_int_def fround_def fmul_def fdyadic_def py_int_def)
next
  case False
  with assms have h: "0 < h" by simp
  have w: "0 < w" using assms by simp
  define u :: rat where "u = 1 / 2 ^ 53"
  define q :: rat where "q = of_int W / of_int w"
  define x :: rat where "x = of_int h * q"
  define fh where "fh = fval (float_of_int h)"
  define r where "r = fval (fround W w)"
  define y where "y = fval (fmul (float_of_int h) (fround W w))"
  have u: "0 < 1 - u" "0 < 1 + u" by (simp_all add: u_def)
  have q: "0 < q" "q < 1" using assms w by (simp_all add: q_def)
  have hr: "(0::rat) < of_int h" using h by simp
  have x: "0 < x" unfolding x_def using hr q(1) by (rule mult_pos_pos)
  have "(of_int h :: rat) \<le> of_int (2 ^ 51)" using assms(4) by (simp only: of_int_le_iff)
  then have h51: "(of_int h :: rat) \<le> 2 ^ 51" by simp
  have "x \<le> of_int h * 1" unfolding x_def using hr q(2) by (intro mult_left_mono) simp_all
  with h51 have x51: "x \<le> 2 ^ 51" by simp
  have fh: "of_int h * (1 - u) \<le> fh" "fh \<le> of_int h * (1 + u)" "0 < fst (float_of_int h)"
    using fround_bounds[of h 1] h by (simp_all add: fh_def float_of_int_def u_def)
  have r: "q * (1 - u) \<le> r" "r \<le> q * (1 + u)" "0 < fst (fround W w)"
    using fround_bounds[OF assms(1) w] by (simp_all add: r_def q_def u_def)
  have y: "fh * r * (1 - u) \<le> y" "y \<le> fh * r * (1 + u)"
    "0 < fst (fmul (float_of_int h) (fround W w))"
    using fmul_bounds[OF fh(3) r(3)] by (simp_all add: y_def fh_def r_def u_def)
  have hlo: "0 \<le> of_int h * (1 - u)" using hr u(1) by simp
  have qlo: "0 \<le> q * (1 - u)" using q(1) u(1) by simp
  have fh0: "0 \<le> fh" using hlo fh(1) by linarith
  have r0: "0 \<le> r" using qlo r(1) by linarith
  have up: "y \<le> x * ((1 + u) * (1 + u) * (1 + u))"
  proof -
    have "fh * r \<le> (of_int h * (1 + u)) * (q * (1 + u))"
      using fh(2) r(2) fh0 r0 by (rule mult_mono') 
    then have "fh * r * (1 + u) \<le> (of_int h * (1 + u)) * (q * (1 + u)) * (1 + u)"
      using u(2) by (intro mult_right_mono) simp_all
    also have "\<dots> = x * ((1 + u) * (1 + u) * (1 + u))"
      by (simp only: x_def mult_ac)
    finally show ?thesis using y(2) by linarith
  qed
  have lo: "x * ((1 - u) * (1 - u) * (1 - u)) \<le> y"
  proof -
    have "(of_int h * (1 - u)) * (q * (1 - u)) \<le> fh * r"
      using fh(1) r(1) hlo qlo by (rule mult_mono')
    then have "(of_int h * (1 - u)) * (q * (1 - u)) * (1 - u) \<le> fh * r * (1 - u)"
      using u(1) by (intro mult_right_mono) simp_all
    moreover have "(of_int h * (1 - u)) * (q * (1 - u)) * (1 - u) = x * ((1 - u) * (1 - u) * (1 - u))"
      by (simp only: x_def mult_ac)
    ultimately show ?thesis using y(1) by linarith
  qed
  have yx: "x - 1 \<le> y" "y \<le> x + 1"
    using cube_bound[OF x x51] up lo unfolding u_def by linarith+
  have fl: "\<lfloor>x\<rfloor> = (h * W) div w"
  proof -
    have "x = of_int (h * W) / of_int w" by (simp add: x_def q_def)
    then show ?thesis by (simp only: floor_divide_of_int_eq)
  qed
  have "\<lfloor>x - 1\<rfloor> \<le> \<lfloor>y\<rfloor>" using yx(1) by (rule floor_mono)
  moreover have "\<lfloor>y\<rfloor> \<le> \<lfloor>x + 1\<rfloor>" using yx(2) by (rule floor_mono)
  ultimately have "\<bar>\<lfloor>y\<rfloor> - \<lfloor>x\<rfloor>\<bar> \<le> 1" by simp
  moreover have "py_int (fmul (float_of_int h) (fround W w)) = \<lfloor>y\<rfloor>"
    unfolding y_def using y(3) by (intro py_int_floor) simp
  ultimately show ?thesis by (simp add: fl)
qed

text \<open>
  The significand that \<open>fround_pos\<close> returns has 53 bits (or is \<open>2 ^ 53\<close>, when the
  rounding carries into the next binade).
\<close>

lemma fround_pos_exponent_upper:
  assumes "0 < a" "0 < b"
  defines "d \<equiv> bitlen a - bitlen b"
  defines "ex \<equiv> (if b * 2 ^ nat d \<le> a * 2 ^ nat (- d) then d else d - 1)"
  shows "(of_int a / of_int b :: rat) < 2 powi (ex + 1)"
proof (cases "b * 2 ^ nat d \<le> a * 2 ^ nat (- d)")
  case False
  then have "a * 2 ^ nat (- d) < b * 2 ^ nat d" by simp
  then have "(of_int (a * 2 ^ nat (- d)) :: rat) < of_int (b * 2 ^ nat d)"
    by (simp only: of_int_less_iff)
  then have "(of_int a :: rat) * 2 ^ nat (- d) < of_int b * 2 ^ nat d" by simp
  then have "of_int a / of_int b < (2::rat) ^ nat d / 2 ^ nat (- d)"
    using assms(2) by (simp add: field_simps)
  then show ?thesis using False by (simp add: ex_def pow2_quot_powi)
next
  case True
  have la: "1 \<le> bitlen a" and lb: "1 \<le> bitlen b"
    using assms(1,2) bitlen_eq_zero_iff[of a] bitlen_eq_zero_iff[of b] bitlen_nonneg[of a] bitlen_nonneg[of b]
    by linarith+
  have "a < 2 ^ nat (bitlen a)" using bitlen_bounds[OF assms(1)] by simp
  then have "(of_int a :: rat) < of_int (2 ^ nat (bitlen a))" by (simp only: of_int_less_iff)
  then have A: "(of_int a :: rat) < 2 powi (bitlen a)" using la by (simp add: pow2_nat_powi[symmetric])
  have "(2::int) ^ nat (bitlen b - 1) \<le> b" using bitlen_bounds[OF assms(2)] by simp
  then have "(of_int ((2::int) ^ nat (bitlen b - 1)) :: rat) \<le> of_int b" by (simp only: of_int_le_iff)
  then have B: "(2::rat) powi (bitlen b - 1) \<le> of_int b" using lb by (simp add: pow2_nat_powi[symmetric])
  have p: "(0::rat) < 2 powi (bitlen b - 1)" by simp
  have "of_int a / of_int b < (2::rat) powi (bitlen a) / 2 powi (bitlen b - 1)"
    using A B p assms(1) by (intro frac_less) simp_all
  also have "\<dots> = 2 powi (d + 1)" by (simp add: d_def power_int_diff power_int_add)
  finally show ?thesis using True by (simp add: ex_def)
qed

lemma round_half_even_range:
  assumes "0 < d" "lo * d \<le> n" "n < hi * d"
  shows "lo \<le> round_half_even n d" and "round_half_even n d \<le> hi"
proof -
  have e: "n div d * d + n mod d = n" by (rule div_mult_mod_eq)
  have m: "0 \<le> n mod d" "n mod d < d" using assms(1) by simp_all
  have "(n div d + 1) * d = n div d * d + d" by (simp add: algebra_simps)
  then have "lo * d < (n div d + 1) * d" using e m assms(2) by linarith
  then have "lo < n div d + 1" using assms(1) by (simp only: mult_less_cancel_right_pos)
  then have q1: "lo \<le> n div d" by simp
  have "n div d * d < hi * d" using e m assms(3) by linarith
  then have q2: "n div d < hi" using assms(1) by (simp only: mult_less_cancel_right_pos)
  show "lo \<le> round_half_even n d" using q1 by (simp add: round_half_even_def Let_def)
  show "round_half_even n d \<le> hi" using q2 by (simp add: round_half_even_def Let_def)
qed

lemma fround_pos_significand:
  assumes "0 < a" "0 < b"
  shows "2 ^ 52 \<le> fst (fround_pos a b)" and "fst (fround_pos a b) \<le> 2 ^ 53"
proof -
  define d where "d = bitlen a - bitlen b"
  define ex where "ex = (if b * 2 ^ nat d \<le> a * 2 ^ nat (- d) then d else d - 1)"
  define s where "s = 52 - ex"
  define N where "N = a * 2 ^ nat s"
  define D where "D = b * 2 ^ nat (- s)"
  define x :: rat where "x = of_int a / of_int b"
  have fr: "fst (fround_pos a b) = round_half_even N D"
    by (simp add: fround_pos_def Let_def d_def ex_def s_def N_def D_def)
  have Dpos: "0 < D" using assms by (simp add: D_def)
  have lo: "2 powi ex \<le> x" unfolding x_def ex_def d_def by (rule fround_pos_exponent[OF assms])
  have hi: "x < 2 powi (ex + 1)" unfolding x_def ex_def d_def by (rule fround_pos_exponent_upper[OF assms])
  have ND: "(of_int N :: rat) / of_int D = x * 2 powi s"
  proof -
    have "(of_int N :: rat) / of_int D = x * (2 ^ nat s / 2 ^ nat (- s))"
      by (simp add: N_def D_def x_def)
    then show ?thesis by (simp only: pow2_quot_powi)
  qed
  have p: "(0::rat) < 2 powi s" by simp
  have "2 powi ex * 2 powi s \<le> x * 2 powi s" using lo p by (intro mult_right_mono) simp_all
  moreover have "(2::rat) powi ex * 2 powi s = 2 ^ 52"
    by (simp add: s_def power_int_add[symmetric])
  ultimately have "(2::rat) ^ 52 \<le> of_int N / of_int D" by (simp add: ND)
  then have "(2::rat) ^ 52 * of_int D \<le> of_int N" using Dpos by (simp add: field_simps)
  then have "(of_int (2 ^ 52 * D) :: rat) \<le> of_int N" by simp
  then have l: "2 ^ 52 * D \<le> N" by (simp only: of_int_le_iff)
  have "x * 2 powi s < 2 powi (ex + 1) * 2 powi s" using hi p by (intro mult_strict_right_mono) simp_all
  moreover have "(2::rat) powi (ex + 1) * 2 powi s = 2 ^ 53"
    by (simp add: s_def power_int_add[symmetric])
  ultimately have "of_int N / of_int D < (2::rat) ^ 53" by (simp add: ND)
  then have "of_int N < (2::rat) ^ 53 * of_int D" using Dpos by (simp add: field_simps)
  then have "(of_int N :: rat) < of_int (2 ^ 53 * D)" by simp
  then have h: "N < 2 ^ 53 * D" by (simp only: of_int_less_iff)
  show "2 ^ 52 \<le> fst (fround_pos a b)" unfolding fr using Dpos l h by (intro round_half_even_range(1)) simp_all
  show "fst (fround_pos a b) \<le> 2 ^ 53" unfolding fr using Dpos l h by (intro round_half_even_range(2)[where lo = "2 ^ 52"]) simp_all
qed

subsection \<open>Paths\<close>

lemma rfind_nth:
  assumes "c \<in> set s"
  shows "0 \<le> rfind s c" and "rfind s c < int (length s)" and "s ! nat (rfind s c) = c"
proof -
  define k where "k = length (takeWhile (\<lambda>x. x \<noteq> c) (rev s))"
  have "takeWhile (\<lambda>x. x \<noteq> c) (rev s) \<noteq> rev s"
    using assms by (simp add: takeWhile_eq_all_conv)
  moreover have "k \<le> length (rev s)" unfolding k_def by (rule length_takeWhile_le)
  ultimately have k: "k < length s"
    unfolding k_def
    by (metis length_rev le_neq_implies_less takeWhile_eq_take take_all order_refl)
  have r: "rfind s c = int (length s) - 1 - int k" using assms by (simp add: rfind_def k_def)
  show "0 \<le> rfind s c" and "rfind s c < int (length s)" using k r by simp_all
  have "\<not> (rev s ! k \<noteq> c)"
    unfolding k_def using k by (intro nth_length_takeWhile) (simp add: k_def)
  then have "rev s ! k = c" by simp
  moreover have "rev s ! k = s ! (length s - Suc k)" using k by (simp add: rev_nth)
  moreover have "nat (rfind s c) = length s - Suc k" using k r by simp
  ultimately show "s ! nat (rfind s c) = c" by simp
qed

lemma suffix_nonempty:
  assumes "suffix p \<noteq> []"
  shows "name p = stem p @ suffix p" and "hd (suffix p) = CHR ''.''" and "name p \<noteq> []"
    and "take (length (name p) - length (suffix p)) (name p) = stem p"
proof -
  define i where "i = rfind (name p) CHR ''.''"
  have c: "0 < i \<and> i < int (length (name p)) - 1"
    using assms by (simp add: suffix_def Let_def i_def split: if_splits)
  have sf: "suffix p = drop (nat i) (name p)" and st: "stem p = take (nat i) (name p)"
    using c by (simp_all add: suffix_def stem_def Let_def i_def)
  show "name p = stem p @ suffix p" by (simp add: sf st)
  have "CHR ''.'' \<in> set (name p)"
    using c by (auto simp add: i_def rfind_def split: if_splits)
  then have "name p ! nat i = CHR ''.''" unfolding i_def by (rule rfind_nth(3))
  moreover have "nat i < length (name p)" using c by linarith
  ultimately show "hd (suffix p) = CHR ''.''" by (simp add: sf hd_drop_conv_nth)
  show "name p \<noteq> []" using c by auto
  have "nat i \<le> length (name p)" using c by linarith
  then have "length (name p) - (length (name p) - nat i) = nat i" by simp
  then show "take (length (name p) - length (suffix p)) (name p) = stem p"
    by (simp add: sf st)
qed

lemma with_suffix_replaces:
  assumes "suffix p \<noteq> []" and "CHR ''/'' \<notin> set sfx" and "hd sfx = CHR ''.''" and "2 \<le> length sfx"
  shows "with_suffix p sfx = Inr (p\<lparr>name := stem p @ sfx\<rparr>)"
proof -
  obtain a b t where s: "sfx = a # b # t" using assms(4) by (cases sfx; cases "tl sfx") auto
  then have a: "a = CHR ''.''" using assms(3) by simp
  show ?thesis
    using assms(1,2) suffix_nonempty(3,4)[OF assms(1)]
    by (simp add: with_suffix_def Let_def s a)
qed

subsection \<open>String literals\<close>

lemma upper_JPEG: "upper ''JPEG'' = ''JPEG''" by code_simp
lemma upper_WEBP: "upper ''WEBP'' = ''WEBP''" by code_simp
lemma upper_PNG: "upper ''PNG'' = ''PNG''" by code_simp
lemma upper_XYZ: "upper ''XYZ'' = ''XYZ''" by code_simp
lemma lower_JPEG: "lower ''JPEG'' = ''jpeg''" by code_simp

subsection \<open>Resizing\<close>

lemma truediv_pos: "0 < b \<Longrightarrow> truediv a b = Inr (fround a b)"
  by (simp add: truediv_def)

lemma resize_image_passes:
  assumes "truthy (max_width cfg) \<or> truthy (max_height cfg)"
    and "width_pass (max_width cfg) (image_size im) = Inr sz1"
  shows "resize_image cfg im =
           (case height_pass (max_height cfg) sz1 of
              Inl e \<Rightarrow> Inl e
            | Inr sz2 \<Rightarrow> if sz2 = image_size im then Inr im else pil_resize im sz2)"
  using assms by (auto simp add: resize_image_def prod_eq_iff split: sum.splits)

lemma height_pass_idle:
  assumes "\<forall>H. mh = Some H \<longrightarrow> H = 0 \<or> snd sz \<le> H"
  shows "height_pass mh sz = Inr sz"
  using assms by (cases mh) (auto simp add: height_pass_def)

text \<open>
  The computation of the sizes. Without a truthy \<^verbatim>\<open>max_width\<close> or \<^verbatim>\<open>max_height\<close> the image
  is returned as it is. With \<^verbatim>\<open>max_width = W\<close>, \<open>0 < W\<close>, on an image of width \<open>w > W\<close>
  and height \<open>h\<close> (up to \<open>2 ^ 51\<close>), the width pass gives the width \<open>W\<close> and a height \<open>h'\<close>
  within one of \<open>\<lfloor>h * W / w\<rfloor>\<close>; the height pass is applied to \<open>(W, h')\<close>, so the cap
  \<^verbatim>\<open>max_height\<close> is compared with \<open>h'\<close> and not with \<open>h\<close>, and the image is resized to what
  it gives. Where \<open>h'\<close> is within the cap, the result is the image resized to \<open>(W, h')\<close>
  if \<open>h'\<close> is at least one, and \<^verbatim>\<open>ValueError\<close> if \<open>h'\<close> is zero.
\<close>

theorem resize_width_then_height:
  "(\<not> truthy (max_width cfg) \<and> \<not> truthy (max_height cfg) \<longrightarrow> resize_image cfg im = Inr im) \<and>
   (max_width cfg = Some W \<and> 0 < W \<and> image_size im = (w, h) \<and> W < w \<and> 0 \<le> h \<and> h \<le> 2 ^ 51 \<longrightarrow>
      (\<exists>h'. width_pass (max_width cfg) (w, h) = Inr (W, h') \<and>
            \<bar>h' - (h * W) div w\<bar> \<le> 1 \<and>
            resize_image cfg im =
              (case height_pass (max_height cfg) (W, h') of
                 Inl e \<Rightarrow> Inl e
               | Inr sz \<Rightarrow> if sz = (w, h) then Inr im else pil_resize im sz) \<and>
            ((\<forall>H. max_height cfg = Some H \<longrightarrow> H = 0 \<or> h' \<le> H) \<longrightarrow>
               resize_image cfg im =
                 (if 1 \<le> h' then Inr (Resize im (W, h')) else Inl ValueError))))"
proof (intro conjI impI)
  assume "\<not> truthy (max_width cfg) \<and> \<not> truthy (max_height cfg)"
  then show "resize_image cfg im = Inr im" by (simp add: resize_image_def)
next
  assume a: "max_width cfg = Some W \<and> 0 < W \<and> image_size im = (w, h) \<and> W < w \<and> 0 \<le> h \<and> h \<le> 2 ^ 51"
  define h' where "h' = py_int (fmul (float_of_int h) (fround W w))"
  have w: "0 < w" using a by simp
  have wp: "width_pass (max_width cfg) (w, h) = Inr (W, h')"
    using a w by (simp add: width_pass_def truediv_pos h'_def)
  have tol: "\<bar>h' - (h * W) div w\<bar> \<le> 1"
    unfolding h'_def using a by (intro scaled_tolerance) simp_all
  have t: "truthy (max_width cfg) \<or> truthy (max_height cfg)"
    using a by (simp add: truthy_def)
  have wp': "width_pass (max_width cfg) (image_size im) = Inr (W, h')" using wp a by simp
  have r: "resize_image cfg im =
              (case height_pass (max_height cfg) (W, h') of
                 Inl e \<Rightarrow> Inl e
               | Inr sz \<Rightarrow> if sz = (w, h) then Inr im else pil_resize im sz)"
  proof -
    have isz: "image_size im = (w, h)" using a by simp
    show ?thesis using resize_image_passes[OF t wp'] unfolding isz .
  qed
  have idle: "(\<forall>H. max_height cfg = Some H \<longrightarrow> H = 0 \<or> h' \<le> H) \<longrightarrow>
      resize_image cfg im = (if 1 \<le> h' then Inr (Resize im (W, h')) else Inl ValueError)"
  proof
    assume "\<forall>H. max_height cfg = Some H \<longrightarrow> H = 0 \<or> h' \<le> H"
    then have "height_pass (max_height cfg) (W, h') = Inr (W, h')"
      by (intro height_pass_idle) simp
    with r a show "resize_image cfg im = (if 1 \<le> h' then Inr (Resize im (W, h')) else Inl ValueError)"
      by (auto simp add: pil_resize_def)
  qed
  show "\<exists>h'. width_pass (max_width cfg) (w, h) = Inr (W, h') \<and>
            \<bar>h' - (h * W) div w\<bar> \<le> 1 \<and>
            resize_image cfg im =
              (case height_pass (max_height cfg) (W, h') of
                 Inl e \<Rightarrow> Inl e
               | Inr sz \<Rightarrow> if sz = (w, h) then Inr im else pil_resize im sz) \<and>
            ((\<forall>H. max_height cfg = Some H \<longrightarrow> H = 0 \<or> h' \<le> H) \<longrightarrow>
               resize_image cfg im =
                 (if 1 \<le> h' then Inr (Resize im (W, h')) else Inl ValueError))"
    using wp tol r idle by blast
qed

theorem resize_width_then_height_example:
  "(\<exists>h'. width_pass (Some 1920) (2400, 1600) = Inr (1920, h') \<and> \<bar>h' - 1280\<bar> \<le> 1 \<and>
         resize_image (default_config\<lparr>max_width := Some 1920\<rparr>) (Raster ''RGB'' 2400 1600 []) =
           (if 1 \<le> h' then Inr (Resize (Raster ''RGB'' 2400 1600 []) (1920, h'))
            else Inl ValueError)) \<and>
   resize_image (default_config\<lparr>max_width := Some 1920\<rparr>) (Raster ''RGB'' 2400 1600 []) =
     Inr (Resize (Raster ''RGB'' 2400 1600 []) (1920, 1280)) \<and>
   resize_image default_config (Raster ''RGB'' 2400 1600 []) = Inr (Raster ''RGB'' 2400 1600 []) \<and>
   resize_image (default_config\<lparr>max_width := Some 1920, max_height := Some 1500\<rparr>)
       (Raster ''RGB'' 2400 1600 []) =
     Inr (Resize (Raster ''RGB'' 2400 1600 []) (1920, 1280)) \<and>
   resize_image (default_config\<lparr>max_width := Some 1000, max_height := Some 500\<rparr>)
       (Raster ''RGB'' 2000 4000 []) =
     Inr (Resize (Raster ''RGB'' 2000 4000 []) (250, 500))"
proof -
  have a: "\<exists>h'. width_pass (Some 1920) (2400, 1600) = Inr (1920, h') \<and> \<bar>h' - 1280\<bar> \<le> 1 \<and>
         resize_image (default_config\<lparr>max_width := Some 1920\<rparr>) (Raster ''RGB'' 2400 1600 []) =
           (if 1 \<le> h' then Inr (Resize (Raster ''RGB'' 2400 1600 []) (1920, h'))
            else Inl ValueError)"
  proof -
    let ?cfg = "default_config\<lparr>max_width := Some 1920\<rparr>"
    let ?im = "Raster ''RGB'' 2400 1600 []"
    have pre: "max_width ?cfg = Some 1920 \<and> (0::int) < 1920 \<and> image_size ?im = (2400, 1600) \<and>
        (1920::int) < 2400 \<and> (0::int) \<le> 1600 \<and> (1600::int) \<le> 2 ^ 51"
      by simp
    from resize_width_then_height [of ?cfg ?im 1920 2400 1600] pre
    obtain h' where h:
      "width_pass (max_width ?cfg) (2400, 1600) = Inr (1920, h')"
      "\<bar>h' - (1600 * 1920) div 2400\<bar> \<le> 1"
      "(\<forall>H. max_height ?cfg = Some H \<longrightarrow> H = 0 \<or> h' \<le> H) \<longrightarrow>
         resize_image ?cfg ?im = (if 1 \<le> h' then Inr (Resize ?im (1920, h')) else Inl ValueError)"
      by blast
    have "max_height ?cfg = None" by (simp add: default_config_def)
    with h(3) have "resize_image ?cfg ?im =
        (if 1 \<le> h' then Inr (Resize ?im (1920, h')) else Inl ValueError)"
      by simp
    with h(1,2) show ?thesis by (intro exI[of _ h']) simp
  qed
  have b: "resize_image (default_config\<lparr>max_width := Some 1920\<rparr>) (Raster ''RGB'' 2400 1600 []) =
     Inr (Resize (Raster ''RGB'' 2400 1600 []) (1920, 1280))"
    by code_simp
  have c: "resize_image default_config (Raster ''RGB'' 2400 1600 []) = Inr (Raster ''RGB'' 2400 1600 [])"
    using resize_width_then_height [of default_config "Raster ''RGB'' 2400 1600 []" 1 1 1]
    by (simp add: default_config_def truthy_def)
  have d: "resize_image (default_config\<lparr>max_width := Some 1920, max_height := Some 1500\<rparr>)
       (Raster ''RGB'' 2400 1600 []) =
     Inr (Resize (Raster ''RGB'' 2400 1600 []) (1920, 1280))"
    by code_simp
  have e: "resize_image (default_config\<lparr>max_width := Some 1000, max_height := Some 500\<rparr>)
       (Raster ''RGB'' 2000 4000 []) =
     Inr (Resize (Raster ''RGB'' 2000 4000 []) (250, 500))"
    by code_simp
  from a b c d e show ?thesis by blast
qed

text \<open>
  C3, on the code. The claim wants, for every image wider than \<^verbatim>\<open>max_width = W\<close>, an
  image of width \<open>W\<close> and scaled height returned. On an image of 1000 by 1 with
  \<^verbatim>\<open>max_width = 100\<close> the width pass computes the height \<open>int(1 * 0.1) = 0\<close>, the call
  \<^verbatim>\<open>image.resize((100, 0), ...)\<close> raises \<^verbatim>\<open>ValueError\<close>, and \<^verbatim>\<open>compress_image\<close> counts the
  file as an error and writes nothing: the scaled height is not kept at one or above.
\<close>

theorem resize_raises_on_thin_image:
  "width_pass (Some 100) (1000, 1) = Inr (100, 0) \<and>
   resize_image (default_config\<lparr>max_width := Some 100\<rparr>) (Raster ''RGB'' 1000 1 []) =
     Inl ValueError \<and>
   compress_image (default_config\<lparr>max_width := Some 100\<rparr>)
       (shaped_codec (Raster ''RGB'' 1000 1 [])) photo_png None
       (init_stats, [photo_png \<mapsto> [9, 9]]) =
     (False, init_stats\<lparr>total_original_size := 2, errors := 1\<rparr>, [photo_png \<mapsto> [9, 9]])"
proof -
  have a: "width_pass (Some 100) (1000, 1) = Inr (100, 0)" by code_simp
  have b: "resize_image (default_config\<lparr>max_width := Some 100\<rparr>) (Raster ''RGB'' 1000 1 []) =
     Inl ValueError"
    by code_simp
  have f: "flatten_for_jpeg (default_config\<lparr>max_width := Some 100\<rparr>) (Raster ''RGB'' 1000 1 []) =
     Raster ''RGB'' 1000 1 []"
    by (simp add: flatten_for_jpeg_def)
  have c: "compress_image (default_config\<lparr>max_width := Some 100\<rparr>)
       (shaped_codec (Raster ''RGB'' 1000 1 [])) photo_png None
       (init_stats, [photo_png \<mapsto> [9, 9]]) =
     (False, init_stats\<lparr>total_original_size := 2, errors := 1\<rparr>, [photo_png \<mapsto> [9, 9]])"
    by (simp add: compress_image_def shaped_codec_def f b except_handler_def init_stats_def)
  from a b c show ?thesis by simp
qed

theorem resize_raises_on_thin_image_witness:
  "resize_image (default_config\<lparr>max_width := Some 100\<rparr>) (Raster ''RGB'' 1000 1 []) \<noteq>
     Inr (Resize (Raster ''RGB'' 1000 1 []) (100, 0)) \<and>
   \<not> fst (compress_image (default_config\<lparr>max_width := Some 100\<rparr>)
            (shaped_codec (Raster ''RGB'' 1000 1 [])) photo_png None
            (init_stats, [photo_png \<mapsto> [9, 9]]))"
  using resize_raises_on_thin_image by simp

subsection \<open>A missing input file\<close>

text \<open>
  C1, as stated, fails: for an input path that does not exist, \<^verbatim>\<open>compress_image\<close> returns
  \<^verbatim>\<open>False\<close> before its \<^verbatim>\<open>try\<close> body raises anything, and \<^verbatim>\<open>errors\<close> is not incremented.
\<close>

theorem missing_input_counterexample:
  "(Map.empty :: filesystem) photo_png = None \<and>
   compress_image default_config sample_codec photo_png None (init_stats, Map.empty) =
     (False, init_stats, Map.empty) \<and>
   errors (fst (snd (compress_image default_config sample_codec photo_png None
                       (init_stats, Map.empty)))) \<noteq> errors init_stats + 1"
  by (simp add: compress_image_def)

text \<open>
  C1, amended. For every input path that does not exist, \<^verbatim>\<open>compress_image\<close> returns
  \<^verbatim>\<open>False\<close> and leaves the statistics and the files as they were: neither \<^verbatim>\<open>errors\<close> nor
  \<^verbatim>\<open>processed\<close> changes (the missing file is logged as a warning only).
\<close>

theorem missing_input_leaves_stats:
  "fs input_path = None \<Longrightarrow>
     compress_image cfg cdc input_path output_path (st, fs) = (False, st, fs)"
  by (simp add: compress_image_def)

theorem missing_input_leaves_stats_witness:
  "compress_image default_config sample_codec photo_jpg None
     (init_stats, [photo_png \<mapsto> [7, 7]]) = (False, init_stats, [photo_png \<mapsto> [7, 7]])"
proof -
  have "[photo_png \<mapsto> [7, 7 :: nat]] photo_jpg = None"
    by (simp add: photo_png_def photo_jpg_def)
  then show ?thesis by (rule missing_input_leaves_stats)
qed

subsection \<open>Flattening onto white for JPEG\<close>

text \<open>
  What the block does for the two modes it names. With the target format JPEG, an image
  whose mode is \<^verbatim>\<open>RGBA\<close> is pasted onto a white RGB image of the same size with its last
  band (the alpha band) as mask; an image whose mode is \<^verbatim>\<open>P\<close> is pasted onto such a
  background with no mask. The size never changes, and the result has the mode \<^verbatim>\<open>RGB\<close>.
\<close>

theorem flatten_rgba_and_palette:
  "upper (format cfg) = ''JPEG'' \<longrightarrow>
     (image_mode im = ''RGBA'' \<longrightarrow>
        flatten_for_jpeg cfg im =
          Paste (New ''RGB'' (image_size im) (255, 255, 255)) im (Some (LastBand im))) \<and>
     (image_mode im = ''P'' \<longrightarrow>
        flatten_for_jpeg cfg im = Paste (New ''RGB'' (image_size im) (255, 255, 255)) im None) \<and>
     image_size (flatten_for_jpeg cfg im) = image_size im \<and>
     (image_mode im = ''RGBA'' \<or> image_mode im = ''P'' \<longrightarrow>
        image_mode (flatten_for_jpeg cfg im) = ''RGB'')"
  by (simp add: flatten_for_jpeg_def)

theorem flatten_rgba_and_palette_example:
  "flatten_for_jpeg default_config (Raster ''RGBA'' 4 3 [5]) =
     Paste (New ''RGB'' (4, 3) (255, 255, 255)) (Raster ''RGBA'' 4 3 [5])
       (Some (LastBand (Raster ''RGBA'' 4 3 [5]))) \<and>
   flatten_for_jpeg default_config (Raster ''P'' 4 3 [5]) =
     Paste (New ''RGB'' (4, 3) (255, 255, 255)) (Raster ''P'' 4 3 [5]) None"
  using flatten_rgba_and_palette [of default_config "Raster ''RGBA'' 4 3 [5]"]
        flatten_rgba_and_palette [of default_config "Raster ''P'' 4 3 [5]"]
  by (simp add: default_config_def upper_JPEG)

text \<open>
  C4, on the code. The claim wants every image whose mode carries an alpha band or a
  palette pasted onto white before a JPEG is written. The block tests for the modes
  \<^verbatim>\<open>RGBA\<close> and \<^verbatim>\<open>P\<close> only: an image of the mode \<^verbatim>\<open>LA\<close> (grey with alpha) or \<^verbatim>\<open>PA\<close>
  (palette with alpha) reaches the save as it is, the JPEG plugin cannot write it, and
  \<^verbatim>\<open>compress_image\<close> counts the file as an error and writes nothing.
\<close>

theorem flatten_misses_alpha_modes:
  "upper (format default_config) = ''JPEG'' \<and>
   has_alpha (image_mode (Raster ''LA'' 4 3 [])) \<and>
   flatten_for_jpeg default_config (Raster ''LA'' 4 3 []) = Raster ''LA'' 4 3 [] \<and>
   has_palette (image_mode (Raster ''PA'' 4 3 [])) \<and>
   flatten_for_jpeg default_config (Raster ''PA'' 4 3 []) = Raster ''PA'' 4 3 [] \<and>
   compress_image default_config (shaped_codec (Raster ''LA'' 4 3 [])) photo_png None
       (init_stats, [photo_png \<mapsto> [9, 9]]) =
     (False, init_stats\<lparr>total_original_size := 2, errors := 1\<rparr>, [photo_png \<mapsto> [9, 9]])"
proof -
  have f: "flatten_for_jpeg default_config (Raster ''LA'' 4 3 []) = Raster ''LA'' 4 3 []"
    by (simp add: default_config_def upper_JPEG flatten_for_jpeg_def)
  have r: "resize_image default_config (Raster ''LA'' 4 3 []) = Inr (Raster ''LA'' 4 3 [])"
    by (simp add: resize_image_def default_config_def truthy_def)
  have o: "choose_output_path default_config photo_png None = Inr photo_jpeg" by code_simp
  have b: "backup_rename default_config photo_png [photo_png \<mapsto> [9, 9]] = Inr [photo_png \<mapsto> [9, 9]]"
    by (simp add: backup_rename_def default_config_def)
  have u: "upper (format default_config) = ''JPEG''" by (simp add: default_config_def upper_JPEG)
  have n: "photo_jpeg \<noteq> photo_png" by (simp add: photo_png_def photo_jpeg_def)
  have c: "compress_image default_config (shaped_codec (Raster ''LA'' 4 3 [])) photo_png None
       (init_stats, [photo_png \<mapsto> [9, 9]]) =
     (False, init_stats\<lparr>total_original_size := 2, errors := 1\<rparr>, [photo_png \<mapsto> [9, 9]])"
    by (simp add: compress_image_def shaped_codec_def f r o b u n has_alpha_def
          except_handler_def init_stats_def)
  show ?thesis
    using c f u
    by (simp add: default_config_def upper_JPEG has_alpha_def has_palette_def flatten_for_jpeg_def)
qed

subsection \<open>Encode parameters\<close>

text \<open>
  C5, as stated, fails for WEBP: the parameters also hold \<^verbatim>\<open>optimize\<close>, which is set for
  every format before the format is looked at.
\<close>

theorem webp_kwargs_counterexample:
  "upper (format (default_config\<lparr>format := ''WEBP''\<rparr>)) = ''WEBP'' \<and>
   get_save_kwargs (default_config\<lparr>format := ''WEBP''\<rparr>) ''optimize'' = Some (PyBool True) \<and>
   get_save_kwargs (default_config\<lparr>format := ''WEBP''\<rparr>) \<noteq>
     [''quality'' \<mapsto> PyInt 85, ''method'' \<mapsto> PyInt 6]"
proof -
  have o: "get_save_kwargs (default_config\<lparr>format := ''WEBP''\<rparr>) ''optimize'' = Some (PyBool True)"
    by (simp add: get_save_kwargs_def default_config_def upper_WEBP)
  have "[''quality'' \<mapsto> PyInt 85, ''method'' \<mapsto> PyInt 6] ''optimize'' = None" by simp
  with o have "get_save_kwargs (default_config\<lparr>format := ''WEBP''\<rparr>) \<noteq>
      [''quality'' \<mapsto> PyInt 85, ''method'' \<mapsto> PyInt 6]"
    by (metis option.distinct(1))
  with o show ?thesis by (simp add: upper_WEBP)
qed

text \<open>
  C5, amended. The encode parameters are exactly: for JPEG, \<^verbatim>\<open>optimize\<close>, \<^verbatim>\<open>quality\<close>
  and \<^verbatim>\<open>progressive\<close> from the configuration; for PNG, \<^verbatim>\<open>optimize = True\<close> alone; for
  WEBP, \<^verbatim>\<open>optimize\<close> and \<^verbatim>\<open>quality\<close> from the configuration and \<^verbatim>\<open>method = 6\<close>; for any
  other format, \<^verbatim>\<open>optimize\<close> from the configuration alone. The format is compared in
  upper case.
\<close>

theorem get_save_kwargs_by_format:
  "get_save_kwargs cfg =
     (if upper (format cfg) = ''JPEG'' then
        [''optimize'' \<mapsto> PyBool (optimize cfg), ''quality'' \<mapsto> PyInt (quality cfg),
         ''progressive'' \<mapsto> PyBool (progressive cfg)]
      else if upper (format cfg) = ''PNG'' then [''optimize'' \<mapsto> PyBool True]
      else if upper (format cfg) = ''WEBP'' then
        [''optimize'' \<mapsto> PyBool (optimize cfg), ''quality'' \<mapsto> PyInt (quality cfg),
         ''method'' \<mapsto> PyInt 6]
      else [''optimize'' \<mapsto> PyBool (optimize cfg)])"
  by (simp add: get_save_kwargs_def)

theorem get_save_kwargs_by_format_witness:
  "get_save_kwargs (default_config\<lparr>format := ''WEBP''\<rparr>) =
     [''optimize'' \<mapsto> PyBool True, ''quality'' \<mapsto> PyInt 85, ''method'' \<mapsto> PyInt 6] \<and>
   get_save_kwargs (default_config\<lparr>format := ''PNG'', optimize := False\<rparr>) =
     [''optimize'' \<mapsto> PyBool True] \<and>
   get_save_kwargs default_config =
     [''optimize'' \<mapsto> PyBool True, ''quality'' \<mapsto> PyInt 85, ''progressive'' \<mapsto> PyBool True] \<and>
   get_save_kwargs (default_config\<lparr>format := ''XYZ'', optimize := False\<rparr>) =
     [''optimize'' \<mapsto> PyBool False]"
  using get_save_kwargs_by_format [of "default_config\<lparr>format := ''WEBP''\<rparr>"]
        get_save_kwargs_by_format [of "default_config\<lparr>format := ''PNG'', optimize := False\<rparr>"]
        get_save_kwargs_by_format [of default_config]
        get_save_kwargs_by_format [of "default_config\<lparr>format := ''XYZ'', optimize := False\<rparr>"]
  by (simp add: default_config_def upper_JPEG upper_WEBP upper_PNG upper_XYZ)

subsection \<open>The report\<close>

lemma print_statistics_total: "\<exists>r. print_statistics st = Inr r"
  by (simp add: print_statistics_def truediv_def Let_def)

text \<open>
  C9. \<^verbatim>\<open>print_statistics\<close> never raises. With \<^verbatim>\<open>total_original_size = 0\<close> the report is
  the head and the closing rule: no size, no reduction, no division. Otherwise the
  reduction is \<open>(1 - total_compressed_size / total_original_size) * 100\<close> in float
  arithmetic.
\<close>

theorem reduction_guarded:
  "print_statistics st =
     (if total_original_size st = 0 then Inr (report_head st @ [Rule])
      else Inr (report_head st @
             [OriginalSizeMB (fround (int (total_original_size st)) (1024 * 1024)),
              CompressedSizeMB (fround (int (total_compressed_size st)) (1024 * 1024)),
              TotalReduction
                (fmul (fsub (float_of_int 1)
                         (fround (int (total_compressed_size st)) (int (total_original_size st))))
                      (float_of_int 100)),
              SpaceSavedMB
                (fsub (fround (int (total_original_size st)) (1024 * 1024))
                      (fround (int (total_compressed_size st)) (1024 * 1024))),
              Rule]))"
  by (simp add: print_statistics_def truediv_def Let_def)

theorem reduction_guarded_witness:
  "print_statistics init_stats =
     Inr [Rule, Title, Rule, ImagesProcessed 0, ErrorCount 0, DirectoriesProcessed 0,
          TotalDirectories 0, Rule] \<and>
   print_statistics (init_stats\<lparr>processed := 1, total_original_size := 4, total_compressed_size := 1\<rparr>) =
     Inr [Rule, Title, Rule, ImagesProcessed 1, ErrorCount 0, DirectoriesProcessed 0,
          TotalDirectories 0,
          OriginalSizeMB (fround 4 (1024 * 1024)), CompressedSizeMB (fround 1 (1024 * 1024)),
          TotalReduction (fmul (fsub (float_of_int 1) (fround 1 4)) (float_of_int 100)),
          SpaceSavedMB (fsub (fround 4 (1024 * 1024)) (fround 1 (1024 * 1024))), Rule] \<and>
   py_int (fmul (fsub (float_of_int 1) (fround 1 4)) (float_of_int 100)) = 75"
proof -
  have "py_int (fmul (fsub (float_of_int 1) (fround 1 4)) (float_of_int 100)) = 75"
    by code_simp
  then show ?thesis
    using reduction_guarded [of init_stats]
      reduction_guarded [of "init_stats\<lparr>processed := 1, total_original_size := 4, total_compressed_size := 1\<rparr>"]
    by (simp add: init_stats_def report_head_def or_zero_def)
qed

subsection \<open>Suffixes and case\<close>






lemma lower_jpg: "lower ''.jpg'' = ''.jpg''" by code_simp
lemma lower_jpeg: "lower ''.jpeg'' = ''.jpeg''" by code_simp

lemma save_ratio_ok: "content \<noteq> [] \<Longrightarrow> \<exists>r. truediv a (int (length content)) = Inr r"
  by (simp add: truediv_def)


subsection \<open>Format change and the original file\<close>

text \<open>
  C10. The format is taken to have changed when the lower-cased suffix of the input
  differs from \<open>.\<close> followed by the lower-cased format. For an input with the suffix
  \<^verbatim>\<open>.jpg\<close> and the format \<^verbatim>\<open>JPEG\<close>, \<^verbatim>\<open>.jpg\<close> differs from \<^verbatim>\<open>.jpeg\<close>: the format counts
  as changed, the output is written to the \<^verbatim>\<open>.jpeg\<close> path and, with
  \<^verbatim>\<open>delete_original_on_format_change\<close> set (the default), the \<^verbatim>\<open>.jpg\<close> file is deleted.
\<close>

theorem jpg_input_is_converted_and_deleted:
  assumes "lower (suffix p) = ''.jpg''" and "format cfg = ''JPEG''"
    and "delete_original_on_format_change cfg"
    and "fs p = Some content" and "content \<noteq> []"
    and "decode cdc content = Some im"
    and "resize_image cfg (flatten_for_jpeg cfg im) = Inr im'"
    and "encode cdc im' ''JPEG'' (get_save_kwargs cfg) = Written data"
  shows "format_changed cfg p \<and>
         choose_output_path cfg p None = Inr (p\<lparr>name := stem p @ ''.jpeg''\<rparr>) \<and>
         compress_image cfg cdc p None (st, fs) =
           (True,
            st\<lparr>total_original_size := total_original_size st + length content,
               total_compressed_size := total_compressed_size st + length data,
               processed := processed st + 1\<rparr>,
            (fs(p\<lparr>name := stem p @ ''.jpeg''\<rparr> \<mapsto> data))(p := None))"
proof -
  have sn: "suffix p \<noteq> []" using assms(1) by (auto simp add: lower_def)
  have fc: "format_changed cfg p"
    using assms(1,2) by (simp add: format_changed_def target_format_def lower_JPEG)
  have ws: "with_suffix p ''.jpeg'' = Inr (p\<lparr>name := stem p @ ''.jpeg''\<rparr>)"
    using sn by (intro with_suffix_replaces) simp_all
  have out: "choose_output_path cfg p None = Inr (p\<lparr>name := stem p @ ''.jpeg''\<rparr>)"
    using fc ws assms(2) by (simp add: choose_output_path_def target_format_def lower_JPEG)
  have ne: "p \<noteq> p\<lparr>name := stem p @ ''.jpeg''\<rparr>"
  proof
    assume "p = p\<lparr>name := stem p @ ''.jpeg''\<rparr>"
    then have "name p = name (p\<lparr>name := stem p @ ''.jpeg''\<rparr>)" by simp
    then have "stem p @ suffix p = stem p @ ''.jpeg''"
      using suffix_nonempty(1)[OF sn] by simp
    then have "suffix p = ''.jpeg''" by simp
    with assms(1) show False by (simp add: lower_jpeg)
  qed
  have br: "backup_rename cfg p fs = Inr fs" using fc by (simp add: backup_rename_def)
  obtain r where r: "truediv (int (length data)) (int (length content)) = Inr r"
    using save_ratio_ok[OF assms(5)] by blast
  have del: "delete_original cfg p (p\<lparr>name := stem p @ ''.jpeg''\<rparr>)
               (fs(p\<lparr>name := stem p @ ''.jpeg''\<rparr> \<mapsto> data)) =
             (fs(p\<lparr>name := stem p @ ''.jpeg''\<rparr> \<mapsto> data))(p := None)"
    using fc assms(3,4) ne by (simp add: delete_original_def)
  have look: "((fs(p\<lparr>name := stem p @ ''.jpeg''\<rparr> \<mapsto> data))(p := None))
                (p\<lparr>name := stem p @ ''.jpeg''\<rparr>) = Some data"
    using ne by simp
  have "compress_image cfg cdc p None (st, fs) =
           (True,
            st\<lparr>total_original_size := total_original_size st + length content,
               total_compressed_size := total_compressed_size st + length data,
               processed := processed st + 1\<rparr>,
            (fs(p\<lparr>name := stem p @ ''.jpeg''\<rparr> \<mapsto> data))(p := None))"
    unfolding compress_image_def
    by (simp add: assms(2,4,6,7,8) out br del look r upper_JPEG Let_def del: fun_upd_apply)
  with fc out show ?thesis by simp
qed

theorem jpg_input_is_converted_and_deleted_witness:
  "format_changed default_config photo_jpg \<and>
   choose_output_path default_config photo_jpg None = Inr photo_jpeg \<and>
   compress_image default_config sample_codec photo_jpg None
       (init_stats, [photo_jpg \<mapsto> [9, 9, 9, 9]]) =
     (True,
      init_stats\<lparr>total_original_size := 4, total_compressed_size := 3, processed := 1\<rparr>,
      ([photo_jpg \<mapsto> [9, 9, 9, 9]](photo_jpeg \<mapsto> [1, 2, 3]))(photo_jpg := None))"
proof -
  have h1: "lower (suffix photo_jpg) = ''.jpg''" by code_simp
  have h2: "format default_config = ''JPEG''" by (simp add: default_config_def)
  have h3: "delete_original_on_format_change default_config" by (simp add: default_config_def)
  have h4: "[photo_jpg \<mapsto> [9, 9, 9, 9 :: nat]] photo_jpg = Some [9, 9, 9, 9]" by simp
  have h5: "[9, 9, 9, 9 :: nat] \<noteq> []" by simp
  have h6: "decode sample_codec [9, 9, 9, 9] = Some (Raster ''RGB'' 4 3 [9, 9, 9, 9])"
    by (simp add: sample_codec_def)
  have h7: "resize_image default_config
              (flatten_for_jpeg default_config (Raster ''RGB'' 4 3 [9, 9, 9, 9])) =
            Inr (Raster ''RGB'' 4 3 [9, 9, 9, 9])"
    by (simp add: resize_image_def flatten_for_jpeg_def default_config_def truthy_def)
  have h8: "encode sample_codec (Raster ''RGB'' 4 3 [9, 9, 9, 9]) ''JPEG''
              (get_save_kwargs default_config) = Written [1, 2, 3]"
    by (simp add: sample_codec_def)
  have st: "stem photo_jpg = ''photo''" by code_simp
  have out: "photo_jpg\<lparr>name := stem photo_jpg @ ''.jpeg''\<rparr> = photo_jpeg"
    unfolding st by (simp add: photo_jpg_def photo_jpeg_def)
  show ?thesis
    using jpg_input_is_converted_and_deleted
      [where p = photo_jpg and fs = "[photo_jpg \<mapsto> [9, 9, 9, 9]]" and st = init_stats,
       OF h1 h2 h3 h4 h5 h6 h7 h8]
    by (simp add: out init_stats_def)
qed

lemma no_delete_keeps_input:
  assumes "format_changed cfg p" and "\<not> delete_original_on_format_change cfg" and "fs p \<noteq> None"
  shows "snd (snd (compress_image cfg cdc p op (st, fs))) p \<noteq> None"
  using assms
  by (auto simp add: compress_image_def backup_rename_def delete_original_def
        except_handler_def Let_def split: option.splits sum.splits save_result.splits)

text \<open>
  C6. For an input whose format changed: once the image is saved, the original file is
  gone exactly when \<^verbatim>\<open>delete_original_on_format_change\<close> is set and the output path
  differs from the input path (the input is still there after the save); and with
  \<^verbatim>\<open>delete_original_on_format_change\<close> unset the original is never deleted, whatever the
  outcome of the call.
\<close>

theorem original_deleted_iff:
  "format_changed cfg p \<longrightarrow>
     (fs p = Some content \<and> decode cdc content = Some im \<and>
      resize_image cfg (flatten_for_jpeg cfg im) = Inr im' \<and>
      choose_output_path cfg p op = Inr out \<and>
      encode cdc im' (upper (format cfg)) (get_save_kwargs cfg) = Written data \<longrightarrow>
        (snd (snd (compress_image cfg cdc p op (st, fs))) p = None \<longleftrightarrow>
           delete_original_on_format_change cfg \<and> p \<noteq> out)) \<and>
     (\<not> delete_original_on_format_change cfg \<and> fs p \<noteq> None \<longrightarrow>
        snd (snd (compress_image cfg cdc p op (st, fs))) p \<noteq> None)"
proof (intro impI conjI)
  assume fc: "format_changed cfg p"
  assume a: "fs p = Some content \<and> decode cdc content = Some im \<and>
      resize_image cfg (flatten_for_jpeg cfg im) = Inr im' \<and>
      choose_output_path cfg p op = Inr out \<and>
      encode cdc im' (upper (format cfg)) (get_save_kwargs cfg) = Written data"
  have br: "backup_rename cfg p fs = Inr fs" using fc by (simp add: backup_rename_def)
  show "snd (snd (compress_image cfg cdc p op (st, fs))) p = None \<longleftrightarrow>
           delete_original_on_format_change cfg \<and> p \<noteq> out"
    using a fc
    by (auto simp add: compress_image_def br delete_original_def except_handler_def Let_def
          split: option.splits sum.splits)
next
  assume fc: "format_changed cfg p"
  assume "\<not> delete_original_on_format_change cfg \<and> fs p \<noteq> None"
  then show "snd (snd (compress_image cfg cdc p op (st, fs))) p \<noteq> None"
    using no_delete_keeps_input[OF fc] by simp
qed

theorem original_deleted_iff_witness:
  "snd (snd (compress_image default_config sample_codec photo_png None
               (init_stats, [photo_png \<mapsto> [9, 9]]))) photo_png = None \<and>
   snd (snd (compress_image (default_config\<lparr>delete_original_on_format_change := False\<rparr>)
               sample_codec photo_png None (init_stats, [photo_png \<mapsto> [9, 9]]))) photo_png \<noteq> None"
proof -
  let ?off = "default_config\<lparr>delete_original_on_format_change := False\<rparr>"
  have fc: "format_changed default_config photo_png" by code_simp
  have fc': "format_changed ?off photo_png" by code_simp
  have h1: "[photo_png \<mapsto> [9, 9 :: nat]] photo_png = Some [9, 9]" by simp
  have h2: "decode sample_codec [9, 9] = Some (Raster ''RGB'' 4 3 [9, 9])"
    by (simp add: sample_codec_def)
  have h3: "resize_image default_config (flatten_for_jpeg default_config (Raster ''RGB'' 4 3 [9, 9])) =
            Inr (Raster ''RGB'' 4 3 [9, 9])"
    by (simp add: resize_image_def flatten_for_jpeg_def default_config_def truthy_def)
  have h4: "choose_output_path default_config photo_png None = Inr photo_jpeg" by code_simp
  have h5: "encode sample_codec (Raster ''RGB'' 4 3 [9, 9]) (upper (format default_config))
              (get_save_kwargs default_config) = Written [1, 2, 3]"
    by (simp add: sample_codec_def default_config_def upper_JPEG)
  have ne: "photo_png \<noteq> photo_jpeg" by (simp add: photo_png_def photo_jpeg_def)
  have a: "snd (snd (compress_image default_config sample_codec photo_png None
               (init_stats, [photo_png \<mapsto> [9, 9]]))) photo_png = None"
    using original_deleted_iff
      [where cfg = default_config and p = photo_png and fs = "[photo_png \<mapsto> [9, 9]]"
         and content = "[9, 9]" and cdc = sample_codec and im = "Raster ''RGB'' 4 3 [9, 9]"
         and im' = "Raster ''RGB'' 4 3 [9, 9]" and op = None and out = photo_jpeg
         and data = "[1, 2, 3]" and st = init_stats]
      fc h1 h2 h3 h4 h5 ne
    by (simp add: default_config_def)
  have b: "snd (snd (compress_image ?off sample_codec photo_png None
               (init_stats, [photo_png \<mapsto> [9, 9]]))) photo_png \<noteq> None"
    using original_deleted_iff
      [where cfg = ?off and p = photo_png and fs = "[photo_png \<mapsto> [9, 9]]"
         and cdc = sample_codec and op = None and st = init_stats]
      fc'
    by simp
  from a b show ?thesis by simp
qed

subsection \<open>Backup by renaming\<close>



text \<open>
  A resize that raises comes before the renaming: with \<^verbatim>\<open>max_width = 100\<close> on an image of
  1000 by 1 the call ends in the handler and the original is still under its own name.
\<close>

lemma resize_failure_precedes_rename:
  "compress_image (backup_config\<lparr>max_width := Some 100\<rparr>)
       (shaped_codec (Raster ''RGB'' 1000 1 [])) photo_png None
       (init_stats, [photo_png \<mapsto> [9, 9]]) =
     (False, init_stats\<lparr>total_original_size := 2, errors := 1\<rparr>, [photo_png \<mapsto> [9, 9]])"
proof -
  have f: "flatten_for_jpeg (backup_config\<lparr>max_width := Some 100\<rparr>) (Raster ''RGB'' 1000 1 []) =
     Raster ''RGB'' 1000 1 []"
    by (simp add: flatten_for_jpeg_def)
  have b: "resize_image (backup_config\<lparr>max_width := Some 100\<rparr>) (Raster ''RGB'' 1000 1 []) =
     Inl ValueError"
    by code_simp
  show ?thesis
    by (simp add: compress_image_def shaped_codec_def f b except_handler_def init_stats_def)
qed

subsection \<open>Counting\<close>

lemma compress_image_counts:
  assumes "decode cdc [] = None"
  shows "(processed (fst (snd (compress_image cfg cdc p op (st, fs)))) = processed st \<and>
          errors (fst (snd (compress_image cfg cdc p op (st, fs)))) = errors st) \<or>
         (processed (fst (snd (compress_image cfg cdc p op (st, fs)))) = processed st + 1 \<and>
          errors (fst (snd (compress_image cfg cdc p op (st, fs)))) = errors st) \<or>
         (processed (fst (snd (compress_image cfg cdc p op (st, fs)))) = processed st \<and>
          errors (fst (snd (compress_image cfg cdc p op (st, fs)))) = errors st + 1)"
proof (cases "fs p")
  case None
  then show ?thesis by (simp add: compress_image_def)
next
  case (Some content)
  show ?thesis
  proof (cases "content = []")
    case True
    with Some assms show ?thesis by (simp add: compress_image_def except_handler_def)
  next
    case False
    then have "\<And>a. truediv a (int (length content)) = Inr (fround a (int (length content)))"
      by (simp add: truediv_def)
    with Some show ?thesis
      by (simp add: compress_image_def except_handler_def Let_def
            split: option.splits sum.splits save_result.splits)
  qed
qed

lemma compress_files_counts:
  assumes "decode cdc [] = None"
  shows "processed (fst (snd (compress_files cfg cdc files (st, fs)))) +
         errors (fst (snd (compress_files cfg cdc files (st, fs))))
         \<le> processed st + errors st + length files"
proof (induction files arbitrary: st fs)
  case Nil
  then show ?case by simp
next
  case (Cons f files)
  obtain ok st1 fs1 where c: "compress_image cfg cdc f None (st, fs) = (ok, st1, fs1)"
    by (cases "compress_image cfg cdc f None (st, fs)") auto
  have one: "processed st1 + errors st1 \<le> processed st + errors st + 1"
    using compress_image_counts[OF assms, of cfg f None st fs] c by auto
  obtain cf st2 fs2 where r: "compress_files cfg cdc files (st1, fs1) = (cf, st2, fs2)"
    by (cases "compress_files cfg cdc files (st1, fs1)") auto
  have "processed st2 + errors st2 \<le> processed st1 + errors st1 + length files"
    using Cons.IH[of st1 fs1] r by simp
  with one show ?case by (simp add: c r)
qed

text \<open>
  C8. Where Pillow identifies no image in an empty file, one call of \<^verbatim>\<open>compress_image\<close>
  leaves both counters as they were, or adds one to \<^verbatim>\<open>processed\<close> alone, or adds one to
  \<^verbatim>\<open>errors\<close> alone; so after the loop over a list of files, \<^verbatim>\<open>processed + errors\<close> has
  grown by at most the number of files, and from fresh statistics it is at most that
  number.
\<close>

theorem at_most_one_count_per_file:
  "decode cdc [] = None \<longrightarrow>
     ((processed (fst (snd (compress_image cfg cdc p op (st, fs)))) = processed st \<and>
       errors (fst (snd (compress_image cfg cdc p op (st, fs)))) = errors st) \<or>
      (processed (fst (snd (compress_image cfg cdc p op (st, fs)))) = processed st + 1 \<and>
       errors (fst (snd (compress_image cfg cdc p op (st, fs)))) = errors st) \<or>
      (processed (fst (snd (compress_image cfg cdc p op (st, fs)))) = processed st \<and>
       errors (fst (snd (compress_image cfg cdc p op (st, fs)))) = errors st + 1)) \<and>
     processed (fst (snd (compress_files cfg cdc files (st, fs)))) +
       errors (fst (snd (compress_files cfg cdc files (st, fs))))
       \<le> processed st + errors st + length files \<and>
     processed (fst (snd (compress_files cfg cdc files (init_stats, fs)))) +
       errors (fst (snd (compress_files cfg cdc files (init_stats, fs))))
       \<le> length files"
proof
  assume d: "decode cdc [] = None"
  show "((processed (fst (snd (compress_image cfg cdc p op (st, fs)))) = processed st \<and>
       errors (fst (snd (compress_image cfg cdc p op (st, fs)))) = errors st) \<or>
      (processed (fst (snd (compress_image cfg cdc p op (st, fs)))) = processed st + 1 \<and>
       errors (fst (snd (compress_image cfg cdc p op (st, fs)))) = errors st) \<or>
      (processed (fst (snd (compress_image cfg cdc p op (st, fs)))) = processed st \<and>
       errors (fst (snd (compress_image cfg cdc p op (st, fs)))) = errors st + 1)) \<and>
     processed (fst (snd (compress_files cfg cdc files (st, fs)))) +
       errors (fst (snd (compress_files cfg cdc files (st, fs))))
       \<le> processed st + errors st + length files \<and>
     processed (fst (snd (compress_files cfg cdc files (init_stats, fs)))) +
       errors (fst (snd (compress_files cfg cdc files (init_stats, fs))))
       \<le> length files"
    using compress_image_counts[OF d, of cfg p op st fs]
      compress_files_counts[OF d, of cfg files st fs]
      compress_files_counts[OF d, of cfg files init_stats fs]
    by (simp add: init_stats_def)
qed

theorem at_most_one_count_per_file_witness:
  "decode sample_codec [] = None \<and>
   processed (fst (snd (compress_files default_config sample_codec [photo_png, photo_jpeg, photo_jpg]
                          (init_stats, two_files)))) = 3 \<and>
   errors (fst (snd (compress_files default_config sample_codec [photo_png, photo_jpeg, photo_jpg]
                          (init_stats, two_files)))) = 0 \<and>
   processed (fst (snd (compress_files default_config sample_codec [photo_png, photo_jpeg, photo_jpg]
                          (init_stats, two_files)))) +
   errors (fst (snd (compress_files default_config sample_codec [photo_png, photo_jpeg, photo_jpg]
                          (init_stats, two_files))))
   \<le> length [photo_png, photo_jpeg, photo_jpg]"
proof -
  have d: "decode sample_codec [] = None" by (simp add: sample_codec_def)
  have p: "processed (fst (snd (compress_files default_config sample_codec [photo_png, photo_jpeg, photo_jpg]
                          (init_stats, two_files)))) = 3"
    by code_simp
  have e: "errors (fst (snd (compress_files default_config sample_codec [photo_png, photo_jpeg, photo_jpg]
                          (init_stats, two_files)))) = 0"
    by code_simp
  show ?thesis
    using at_most_one_count_per_file
      [where cdc = sample_codec and cfg = default_config
         and files = "[photo_png, photo_jpeg, photo_jpg]" and fs = two_files] d p e
    by simp
qed

subsection \<open>A target format the codec does not know\<close>

lemma rejected_compress_image:
  assumes "\<forall>im kw data. encode cdc im (upper (format cfg)) kw \<noteq> Written data" and "fs p = Some content"
  shows "\<exists>fs'. compress_image cfg cdc p op (st, fs) =
           (False,
            st\<lparr>total_original_size := total_original_size st + length content,
               errors := errors st + 1\<rparr>, fs')"
  using assms
  by (simp add: compress_image_def except_handler_def Let_def
        split: option.splits sum.splits save_result.splits)

lemma rejected_compress_image_processed:
  assumes "\<forall>im kw data. encode cdc im (upper (format cfg)) kw \<noteq> Written data"
  shows "processed (fst (snd (compress_image cfg cdc p op (st, fs)))) = processed st"
    and "\<not> fst (compress_image cfg cdc p op (st, fs))"
proof -
  show "processed (fst (snd (compress_image cfg cdc p op (st, fs)))) = processed st"
  proof (cases "fs p")
    case None
    then show ?thesis by (simp add: compress_image_def)
  next
    case (Some content)
    from rejected_compress_image[where fs = fs and p = p and op = op and st = st, OF assms Some]
    show ?thesis by auto
  qed
  show "\<not> fst (compress_image cfg cdc p op (st, fs))"
  proof (cases "fs p")
    case None
    then show ?thesis by (simp add: compress_image_def)
  next
    case (Some content)
    from rejected_compress_image[where fs = fs and p = p and op = op and st = st, OF assms Some]
    show ?thesis by auto
  qed
qed

lemma rejected_compress_files:
  assumes "\<forall>im kw data. encode cdc im (upper (format cfg)) kw \<noteq> Written data"
  shows "processed (fst (snd (compress_files cfg cdc files (st, fs)))) = processed st \<and>
         fst (compress_files cfg cdc files (st, fs)) = []"
proof (induction files arbitrary: st fs)
  case Nil
  then show ?case by simp
next
  case (Cons f files)
  obtain ok st1 fs1 where c: "compress_image cfg cdc f None (st, fs) = (ok, st1, fs1)"
    by (cases "compress_image cfg cdc f None (st, fs)") auto
  obtain cf st2 fs2 where r: "compress_files cfg cdc files (st1, fs1) = (cf, st2, fs2)"
    by (cases "compress_files cfg cdc files (st1, fs1)") auto
  have "processed st1 = processed st" "\<not> ok"
    using rejected_compress_image_processed[OF assms, of f None st fs] c by simp_all
  moreover have "processed st2 = processed st1" "cf = []"
    using Cons.IH[of st1 fs1] r by simp_all
  ultimately show ?case by (simp add: c r)
qed

lemma rejected_process_image_dirs:
  assumes "\<forall>im kw data. encode cdc im (upper (format cfg)) kw \<noteq> Written data"
  shows "processed (fst (snd (process_image_dirs cfg cdc dirs (n, st, fs)))) = processed st"
proof (induction dirs arbitrary: n st fs)
  case Nil
  then show ?case by simp
next
  case (Cons d dirs)
  obtain cf st1 fs1 where c: "scan_and_compress_directory cfg cdc d (st, fs) = (cf, st1, fs1)"
    by (cases "scan_and_compress_directory cfg cdc d (st, fs)") auto
  have "processed st1 = processed st"
  proof (cases d)
    case None
    with c show ?thesis by (simp add: scan_and_compress_directory_def)
  next
    case (Some files)
    with c have "compress_files cfg cdc files (st, fs) = (cf, st1, fs1)"
      by (simp add: scan_and_compress_directory_def)
    with rejected_compress_files[OF assms, of files st fs] show ?thesis by simp
  qed
  with Cons.IH[of "n + 1" st1 fs1] show ?case by (simp add: c)
qed

lemma rejected_process_years:
  assumes "\<forall>im kw data. encode cdc im (upper (format cfg)) kw \<noteq> Written data"
  shows "processed (fst (snd (snd (process_years cfg cdc years (t, n, st, fs))))) = processed st"
proof (induction years arbitrary: t n st fs)
  case Nil
  then show ?case by simp
next
  case (Cons y years)
  show ?case
  proof (cases y)
    case None
    with Cons.IH show ?thesis by simp
  next
    case (Some dirs)
    obtain n1 st1 fs1 where c: "process_image_dirs cfg cdc dirs (n, st, fs) = (n1, st1, fs1)"
      by (cases "process_image_dirs cfg cdc dirs (n, st, fs)") auto
    have "processed st1 = processed st"
      using rejected_process_image_dirs[OF assms, of dirs n st fs] c by simp
    with Cons.IH[of "t + length dirs" n1 st1 fs1] show ?thesis by (simp add: Some c)
  qed
qed

lemma rejected_main:
  assumes "\<forall>im kw data. encode cdc im (upper (format cfg)) kw \<noteq> Written data"
  shows "processed (fst (snd (main cfg cdc base fs))) = 0"
proof (cases base)
  case None
  then show ?thesis by (simp add: main_def process_enem_data_def init_stats_def)
next
  case (Some years)
  obtain t n st1 fs1 where c: "process_years cfg cdc years (0, 0, init_stats, fs) = (t, n, st1, fs1)"
    by (cases "process_years cfg cdc years (0, 0, init_stats, fs)") auto
  have "processed st1 = processed init_stats"
    using rejected_process_years[OF assms, of years 0 0 init_stats fs] c by simp
  then have "processed st1 = 0" by (simp add: init_stats_def)
  then show ?thesis by (simp add: main_def process_enem_data_def Some c)
qed

lemma main_reports: "\<exists>r. fst (main cfg cdc base fs) = Inr r"
  using print_statistics_total by (simp add: main_def split: prod.splits)

text \<open>
  C2, as stated, fails: nothing in \<^verbatim>\<open>main\<close>, \<^verbatim>\<open>load_config\<close> or the constructor looks at
  the format. With the format \<^verbatim>\<open>XYZ\<close>, which the codec rejects, the run starts, submits
  both files, counts one error for each and prints its report.
\<close>

theorem unsupported_format_counterexample:
  "upper (format xyz_config) \<notin> set [''JPEG'', ''PNG'', ''WEBP''] \<and>
   fst (main xyz_config sample_codec (Some [Some [Some [photo_png, photo_jpg]]]) two_files) =
     Inr [Rule, Title, Rule, ImagesProcessed 0, ErrorCount 2, DirectoriesProcessed 1,
          TotalDirectories 1,
          OriginalSizeMB (fround 3 (1024 * 1024)), CompressedSizeMB (0, 0),
          TotalReduction (fround 100 1), SpaceSavedMB (fround 3 (1024 * 1024)), Rule] \<and>
   fst (snd (main xyz_config sample_codec (Some [Some [Some [photo_png, photo_jpg]]]) two_files)) =
     \<lparr>processed = 0, errors = 2, total_original_size = 3, total_compressed_size = 0,
      total_directories = Some 1, processed_directories = Some 1\<rparr>"
  by code_simp

text \<open>
  C2, amended. The format is never validated at startup: for every configuration the run
  goes through and prints its report. A target format that the codec rejects is handled
  file by file: each existing file is read, its size is added to the original total, the
  call returns \<^verbatim>\<open>False\<close> with one more error, and the loop goes on with the next file; no
  file is counted as processed.
\<close>

theorem unsupported_format_is_per_file:
  "(\<exists>r. fst (main cfg cdc base fs) = Inr r) \<and>
   ((\<forall>im kw data. encode cdc im (upper (format cfg)) kw \<noteq> Written data) \<longrightarrow>
      (fs' p = Some content \<longrightarrow>
         (\<exists>fs''. compress_image cfg cdc p op (st, fs') =
            (False,
             st\<lparr>total_original_size := total_original_size st + length content,
                errors := errors st + 1\<rparr>, fs''))) \<and>
      fst (compress_files cfg cdc files (st, fs')) = [] \<and>
      processed (fst (snd (main cfg cdc base fs))) = 0)"
  using main_reports[of cfg cdc base fs] rejected_compress_image[of cdc cfg fs' p content op st]
    rejected_compress_files[of cdc cfg files st fs'] rejected_main[of cdc cfg base fs]
  by blast

theorem unsupported_format_is_per_file_witness:
  "(\<forall>im kw data. encode sample_codec im (upper (format xyz_config)) kw \<noteq> Written data) \<and>
   \<not> fst (compress_image xyz_config sample_codec photo_png None (init_stats, two_files)) \<and>
   fst (snd (compress_image xyz_config sample_codec photo_png None (init_stats, two_files))) =
     init_stats\<lparr>total_original_size := 2, errors := 1\<rparr> \<and>
   fst (compress_files xyz_config sample_codec [photo_png, photo_jpg] (init_stats, two_files)) = [] \<and>
   processed (fst (snd (main xyz_config sample_codec (Some [Some [Some [photo_png, photo_jpg]]])
                          two_files))) = 0"
proof -
  have rej: "\<forall>im kw data. encode sample_codec im (upper (format xyz_config)) kw \<noteq> Written data"
    by (simp add: sample_codec_def xyz_config_def upper_XYZ)
  have f: "two_files photo_png = Some [9, 9]"
    by (simp add: two_files_def photo_png_def photo_jpg_def)
  note t = unsupported_format_is_per_file
    [where cfg = xyz_config and cdc = sample_codec and fs' = two_files and p = photo_png
       and content = "[9, 9]" and op = None and st = init_stats
       and files = "[photo_png, photo_jpg]"
       and base = "Some [Some [Some [photo_png, photo_jpg]]]" and fs = two_files]
  from t rej f obtain fs'' where
    c: "compress_image xyz_config sample_codec photo_png None (init_stats, two_files) =
          (False, init_stats\<lparr>total_original_size := total_original_size init_stats + length [9, 9 :: nat],
                              errors := errors init_stats + 1\<rparr>, fs'')"
    by blast
  from t rej have
    "fst (compress_files xyz_config sample_codec [photo_png, photo_jpg] (init_stats, two_files)) = []"
    "processed (fst (snd (main xyz_config sample_codec (Some [Some [Some [photo_png, photo_jpg]]])
                          two_files))) = 0"
    by blast+
  with rej c show ?thesis by (simp add: init_stats_def)
qed

end
